theory Spec2Isabelle
  imports Complex_Main
begin

section \<open>Geodesic measurement (Leaflet component)\<close>

text \<open>
  JavaScript numbers are modelled as reals: the rounding of IEEE doubles is left out,
  the structure of every computation (which operands, in which order) is kept.
\<close>

record 'n latLngOf =
  lat :: 'n
  lng :: 'n

type_synonym latlng = "real latLngOf"

text \<open>
  The drawn layers, by Leaflet class. A polyline's \<open>getLatLngs()\<close> is its flat point
  array; a polygon's is the array of its rings, the outer ring first; a rectangle is
  read through \<open>getBounds()\<close>, a circle through \<open>getRadius()\<close>.
\<close>

record latLngBounds =
  northEast :: latlng
  southWest :: latlng

datatype layerShape =
    PolylineShape "latlng list"
  | PolygonShape "latlng list" "latlng list list"
  | CircleShape latlng real
  | RectangleShape latLngBounds
  | MarkerShape latlng

text \<open>
  A calculation applied to a layer of another class than the one it reads
  (\<open>getLatLngs\<close> of a marker, \<open>getRadius\<close> of a polyline) is outside what the draw
  control delivers; the model marks it instead of inventing a number.
  \<open>InvalidShape\<close> is the failure the specification names for degenerate geometry.
\<close>

datatype fault = ClassMismatch | InvalidShape

text \<open>
  \<open>latlngs[i - 1].distanceTo(latlngs[i])\<close> and \<open>L.GeometryUtil.geodesicArea\<close> belong to
  the Leaflet packages; the functions below take them as parameters.
\<close>

type_synonym distanceFn = "latlng \<Rightarrow> latlng \<Rightarrow> real"
type_synonym areaFn = "latlng list \<Rightarrow> real"

text \<open>The loop of \<open>calculateDistance\<close>: \<open>for (let i = 1; i < latlngs.length; i++)\<close>.\<close>

function distanceLoop :: "distanceFn \<Rightarrow> latlng list \<Rightarrow> nat \<Rightarrow> real \<Rightarrow> real" where
  "distanceLoop distanceTo latlngs i distance =
     (if i < length latlngs
      then distanceLoop distanceTo latlngs (i + 1)
             (distance + distanceTo (latlngs ! (i - 1)) (latlngs ! i))
      else distance)"
  by pat_completeness auto
termination
  by (relation "measure (\<lambda>(d, ps, i, acc). length ps - i)") auto

declare distanceLoop.simps [simp del]

fun calculateDistance :: "distanceFn \<Rightarrow> layerShape \<Rightarrow> fault + real" where
  "calculateDistance distanceTo (PolylineShape latlngs) =
     Inr (distanceLoop distanceTo latlngs 1 0)"
| "calculateDistance distanceTo _ = Inl ClassMismatch"

fun calculatePolygonArea :: "areaFn \<Rightarrow> layerShape \<Rightarrow> fault + real" where
  "calculatePolygonArea geodesicArea (PolygonShape outer holes) =
     Inr (geodesicArea ((outer # holes) ! 0))"
| "calculatePolygonArea geodesicArea _ = Inl ClassMismatch"

fun calculateCircleArea :: "layerShape \<Rightarrow> fault + real" where
  "calculateCircleArea (CircleShape center radius) = Inr (pi * radius * radius)"
| "calculateCircleArea _ = Inl ClassMismatch"

fun calculateRectangleArea :: "areaFn \<Rightarrow> layerShape \<Rightarrow> fault + real" where
  "calculateRectangleArea geodesicArea (RectangleShape bounds) =
     (let ne = northEast bounds; sw = southWest bounds
      in Inr (geodesicArea
           [ne,
            \<lparr>lat = lat ne, lng = lng sw\<rparr>,
            sw,
            \<lparr>lat = lat sw, lng = lng ne\<rparr>]))"
| "calculateRectangleArea geodesicArea _ = Inl ClassMismatch"

text \<open>The \<open>switch (layerType)\<close> of \<open>calculateArea\<close>; the default branch warns and returns 0.\<close>

definition calculateArea :: "areaFn \<Rightarrow> layerShape \<Rightarrow> string \<Rightarrow> fault + real" where
  "calculateArea geodesicArea layer layerType =
     (if layerType = ''polygon'' then calculatePolygonArea geodesicArea layer
      else if layerType = ''circle'' then calculateCircleArea layer
      else if layerType = ''rectangle'' then calculateRectangleArea geodesicArea layer
      else Inr 0)"

text \<open>
  The specification's wording of the rectangle measurement: the polygon measurement,
  applied to the quadrilateral derived from the two corners.
\<close>

definition rectangleAsPolygon :: "latlng \<Rightarrow> latlng \<Rightarrow> layerShape" where
  "rectangleAsPolygon ne sw =
     PolygonShape [ne, \<lparr>lat = lat ne, lng = lng sw\<rparr>, sw, \<lparr>lat = lat sw, lng = lng ne\<rparr>] []"

definition spec_rectangle_area :: "areaFn \<Rightarrow> latlng \<Rightarrow> latlng \<Rightarrow> fault + real" where
  "spec_rectangle_area geodesicArea ne sw =
     calculatePolygonArea geodesicArea (rectangleAsPolygon ne sw)"

section \<open>Shape lifecycle (draw tools of the Leaflet component)\<close>

text \<open>The two props of the component that configure the draw tools.\<close>

record props =
  enableDraw :: bool
  enableMeasure :: bool

text \<open>
  The \<open>draw\<close> part of \<open>drawOptions\<close>: per tool either an options object (the tool is
  offered, \<open>True\<close>) or \<open>false\<close>. The colours and messages inside the option objects
  are left out.
\<close>

record drawToolbar =
  polyline :: bool
  polygon :: bool
  circle :: bool
  marker :: bool
  circlemarker :: bool
  rectangle :: bool

definition drawOptions :: "props \<Rightarrow> drawToolbar" where
  "drawOptions p =
     \<lparr>polyline = enableMeasure p,
      polygon = enableMeasure p,
      circle = enableDraw p,
      marker = enableDraw p,
      circlemarker = False,
      rectangle = enableDraw p\<rparr>"

text \<open>
  \<open>initDrawTools\<close> returns early, registering nothing, when both props are off;
  otherwise it builds the draw control and registers the handlers.
\<close>

definition initDrawTools :: "props \<Rightarrow> drawToolbar option" where
  "initDrawTools p =
     (if \<not> enableDraw p \<and> \<not> enableMeasure p then None else Some (drawOptions p))"

text \<open>
  The popup text of a measurement: \<open>DistanceText d\<close> stands for the distance template
  filled with \<open>d\<close>, \<open>AreaText a\<close> for the area template filled with \<open>a\<close> (the
  formatting by \<open>toFixed(2)\<close> is left out). The empty string is \<open>None\<close>.
\<close>

datatype measurementText = DistanceText real | AreaText real

text \<open>
  A layer object: its geometry, its \<open>_popup\<close> slot (\<open>null\<close> as \<open>None\<close>), and whether
  event listeners are registered on it.
\<close>

record layerObj =
  shape :: layerShape
  popup :: "measurementText option"
  listening :: bool

type_synonym layerId = nat

text \<open>
  The state the handlers act on: the feature group \<open>drawnItems\<close> (Leaflet keeps its
  members in a table by layer id), the layers the map answers \<open>hasLayer\<close> for, and the
  layers whose popup is displayed on the map.
\<close>

record mapState =
  drawnItems :: "layerId \<rightharpoonup> layerObj"
  onMap :: "layerId set"
  openPopups :: "layerId set"

record drawEvent =
  layerId :: layerId
  layer :: layerObj
  layerType :: string

text \<open>The layer type the draw control reports for a layer of each class.\<close>

fun layerTypeOf :: "layerShape \<Rightarrow> string" where
  "layerTypeOf (PolylineShape _) = ''polyline''"
| "layerTypeOf (PolygonShape _ _) = ''polygon''"
| "layerTypeOf (CircleShape _ _) = ''circle''"
| "layerTypeOf (RectangleShape _) = ''rectangle''"
| "layerTypeOf (MarkerShape _) = ''marker''"

text \<open>
  \<open>drawnItems.addLayer(layer)\<close>: a feature group that is on the map stores the layer
  under its id and puts it on the map; a layer it already has is left alone.
\<close>

definition addLayer :: "layerId \<Rightarrow> layerObj \<Rightarrow> mapState \<Rightarrow> mapState" where
  "addLayer i obj st =
     (case drawnItems st i of
        Some _ \<Rightarrow> st
      | None \<Rightarrow> st\<lparr>drawnItems := (drawnItems st)(i \<mapsto> obj), onMap := insert i (onMap st)\<rparr>)"

text \<open>\<open>layer.bindPopup(measurementText).openPopup()\<close> on the stored layer.\<close>

definition bindPopup :: "layerId \<Rightarrow> measurementText \<Rightarrow> mapState \<Rightarrow> mapState" where
  "bindPopup i t st =
     (case drawnItems st i of
        None \<Rightarrow> st
      | Some obj \<Rightarrow> st\<lparr>drawnItems := (drawnItems st)(i \<mapsto> obj\<lparr>popup := Some t, listening := True\<rparr>)\<rparr>)"

definition openPopup :: "layerId \<Rightarrow> mapState \<Rightarrow> mapState" where
  "openPopup i st =
     (case drawnItems st i of
        None \<Rightarrow> st
      | Some obj \<Rightarrow>
          (if popup obj \<noteq> None \<and> i \<in> onMap st
           then st\<lparr>openPopups := insert i (openPopups st)\<rparr> else st))"

text \<open>
  The text the created handler computes inside its \<open>if\<close>: the chain of comparisons of
  \<open>event.layerType\<close>, \<open>measurementText\<close> staying empty when none applies.
\<close>

definition measurementOf ::
  "distanceFn \<Rightarrow> areaFn \<Rightarrow> layerShape \<Rightarrow> string \<Rightarrow> fault + measurementText option" where
  "measurementOf distanceTo geodesicArea sh ty =
     (if ty = ''polyline'' then
        (case calculateDistance distanceTo sh of
           Inl e \<Rightarrow> Inl e | Inr distance \<Rightarrow> Inr (Some (DistanceText distance)))
      else if ty = ''polygon'' \<or> ty = ''rectangle'' then
        (case calculateArea geodesicArea sh ty of
           Inl e \<Rightarrow> Inl e | Inr area \<Rightarrow> Inr (Some (AreaText area)))
      else if ty = ''circle'' then
        (case calculateArea geodesicArea sh ty of
           Inl e \<Rightarrow> Inl e | Inr area \<Rightarrow> Inr (Some (AreaText area)))
      else Inr None)"

text \<open>
  The handler of \<open>L.Draw.Event.CREATED\<close>. A fault inside a calculation leaves the state
  as it is at that point: the layer added, no popup bound.
\<close>

definition onCreated :: "distanceFn \<Rightarrow> areaFn \<Rightarrow> props \<Rightarrow> drawEvent \<Rightarrow> mapState \<Rightarrow> mapState" where
  "onCreated distanceTo geodesicArea p event st =
     (let st1 = addLayer (layerId event) (layer event) st in
      if enableMeasure p \<or> layerType event = ''circle'' \<or> layerType event = ''rectangle''
      then
        (case measurementOf distanceTo geodesicArea (shape (layer event)) (layerType event) of
           Inl e \<Rightarrow> st1
         | Inr None \<Rightarrow> st1
         | Inr (Some t) \<Rightarrow> openPopup (layerId event) (bindPopup (layerId event) t st1))
      else st1)"

text \<open>
  A created event reaching the component: the handler runs when \<open>initDrawTools\<close> has
  registered it, and nothing listens otherwise.
\<close>

definition fireCreated :: "distanceFn \<Rightarrow> areaFn \<Rightarrow> props \<Rightarrow> drawEvent \<Rightarrow> mapState \<Rightarrow> mapState" where
  "fireCreated distanceTo geodesicArea p event st =
     (case initDrawTools p of
        None \<Rightarrow> st
      | Some _ \<Rightarrow> onCreated distanceTo geodesicArea p event st)"

text \<open>
  The handler of \<open>layerremove\<close>, in its three steps: the popup is closed, removed and
  the slot set to \<open>null\<close>; the layer is taken off the map if the map still has it; the
  layer's listeners are cleared. It returns the layer object as the handler leaves it.
\<close>

definition detachPopup :: "layerId \<Rightarrow> layerObj \<times> mapState \<Rightarrow> layerObj \<times> mapState" where
  "detachPopup i os =
     (case os of (obj, st) \<Rightarrow>
        (if popup obj \<noteq> None
         then (obj\<lparr>popup := None\<rparr>, st\<lparr>openPopups := openPopups st - {i}\<rparr>)
         else (obj, st)))"

definition removeFromMap :: "layerId \<Rightarrow> layerObj \<times> mapState \<Rightarrow> layerObj \<times> mapState" where
  "removeFromMap i os =
     (case os of (obj, st) \<Rightarrow>
        (if i \<in> onMap st then (obj, st\<lparr>onMap := onMap st - {i}\<rparr>) else (obj, st)))"

definition layerOff :: "layerObj \<times> mapState \<Rightarrow> layerObj \<times> mapState" where
  "layerOff os = (case os of (obj, st) \<Rightarrow> (obj\<lparr>listening := False\<rparr>, st))"

definition onLayerRemove :: "layerId \<Rightarrow> layerObj \<Rightarrow> mapState \<Rightarrow> layerObj \<times> mapState" where
  "onLayerRemove i obj st = layerOff (removeFromMap i (detachPopup i (obj, st)))"

text \<open>
  \<open>drawnItems.removeLayer(layer)\<close>, as the delete tool of the draw control calls it:
  the group drops the layer from its table and fires \<open>layerremove\<close> with it; a layer
  the group does not have is ignored. Whether the group has already taken the layer
  off the map is left open: the handler checks \<open>hasLayer\<close> itself.
\<close>

definition removeLayer :: "layerId \<Rightarrow> mapState \<Rightarrow> layerObj option \<times> mapState" where
  "removeLayer i st =
     (case drawnItems st i of
        None \<Rightarrow> (None, st)
      | Some obj \<Rightarrow>
          (case onLayerRemove i obj (st\<lparr>drawnItems := (drawnItems st)(i := None)\<rparr>) of
             (obj', st') \<Rightarrow> (Some obj', st')))"

text \<open>
  A popup on display belongs to a layer of the feature group that has it in its slot.
  The empty state has this property and both handlers keep it.
\<close>

definition popupsBound :: "mapState \<Rightarrow> bool" where
  "popupsBound st =
     (\<forall>i \<in> openPopups st. case drawnItems st i of None \<Rightarrow> False | Some obj \<Rightarrow> popup obj \<noteq> None)"

text \<open>The number of measurements attached to a layer: its popup slot, filled or not.\<close>

definition measurementCount :: "layerObj \<Rightarrow> nat" where
  "measurementCount obj = (case popup obj of None \<Rightarrow> 0 | Some _ \<Rightarrow> 1)"


text \<open>
  Modelled from the spec: the point-to-point distance of the Leaflet package is not
  under src/; the specification names the haversine formula on a sphere of the
  Earth's mean radius. It serves to evaluate the embedding at concrete inputs; the
  theorems hold for every distance function.
\<close>

definition haversine :: distanceFn where
  "haversine p q =
     (let rad = pi / 180;
          h = (sin ((lat q - lat p) * rad / 2))\<^sup>2
              + cos (lat p * rad) * cos (lat q * rad) * (sin ((lng q - lng p) * rad / 2))\<^sup>2
      in 2 * 6371000 * arcsin (sqrt h))"

text \<open>
  Modelled from the spec: the polygon area routine of the leaflet-draw package is not
  under src/; the specification describes a planimeter-style geodesic area over the
  implicitly closed ring, never negative. It serves to evaluate the embedding at
  concrete inputs; the theorems hold for every area routine.
\<close>

definition planimeterArea :: areaFn where
  "planimeterArea ring =
     (let n = length ring; rad = pi / 180
      in if n > 2
         then \<bar>(\<Sum>i = 0..<n.
                  (lng (ring ! ((i + 1) mod n)) - lng (ring ! i)) * rad
                  * (2 + sin (lat (ring ! i) * rad) + sin (lat (ring ! ((i + 1) mod n)) * rad)))
               * 6378137 * 6378137 / 2\<bar>
         else 0)"

section \<open>Coordinate parsing (search control of the Leaflet component)\<close>

subsection \<open>Strings and regular expressions\<close>

text \<open>
  A JavaScript string is a sequence of UTF-16 code units. \<open>js\<close> writes an ASCII literal
  as code units; the degree sign is code unit 176.
\<close>

type_synonym jschar = nat
type_synonym jsstring = "nat list"

definition js :: "string \<Rightarrow> jsstring" where
  "js s = map of_char s"

definition isDigit :: "jschar \<Rightarrow> bool" where
  "isDigit c = (48 \<le> c \<and> c \<le> 57)"

text \<open>The class \<open>\s\<close>: the white space and line terminator code units of ECMAScript.\<close>

definition isSpace :: "jschar \<Rightarrow> bool" where
  "isSpace c =
     (c = 9 \<or> c = 10 \<or> c = 11 \<or> c = 12 \<or> c = 13 \<or> c = 32 \<or> c = 160 \<or> c = 5760
      \<or> (8192 \<le> c \<and> c \<le> 8202) \<or> c = 8232 \<or> c = 8233 \<or> c = 8239 \<or> c = 8287
      \<or> c = 12288 \<or> c = 65279)"

text \<open>
  Case folding under the \<open>i\<close> flag, and \<open>toUpperCase\<close>, on the ASCII letters. Under
  the \<open>i\<close> flag ECMAScript never folds a code unit outside ASCII onto an ASCII one,
  the patterns below name only ASCII characters and the degree sign, which has no
  case, and \<open>toUpperCase\<close> is applied only to a letter a pattern matched, so nothing
  else can be observed through them.
\<close>

definition upperUnit :: "jschar \<Rightarrow> jschar" where
  "upperUnit c = (if 97 \<le> c \<and> c \<le> 122 then c - 32 else c)"

definition canonicalize :: "bool \<Rightarrow> jschar \<Rightarrow> jschar" where
  "canonicalize ignoreCase c = (if ignoreCase then upperUnit c else c)"

definition toUpperCase :: "jsstring \<Rightarrow> jsstring" where
  "toUpperCase s = map upperUnit s"

text \<open>
  The fragment of regular expressions the source's three patterns are written in:
  characters, the classes \<open>\d\<close>, \<open>\s\<close> and \<open>[...]\<close>, sequence, alternative, \<open>?\<close>,
  \<open>*\<close> and \<open>+\<close> on a class, and numbered capture groups.
\<close>

datatype charClass = Digit | Space | OneOf "jschar list"

datatype rx =
    Eps
  | Chr jschar
  | Cls charClass
  | Seq rx rx
  | Alt rx rx
  | Opt rx
  | Star charClass
  | Plus charClass
  | Grp nat rx

definition seqs :: "rx list \<Rightarrow> rx" where
  "seqs rs = foldr Seq rs Eps"

fun classMember :: "bool \<Rightarrow> charClass \<Rightarrow> jschar \<Rightarrow> bool" where
  "classMember ic Digit c = isDigit c"
| "classMember ic Space c = isSpace c"
| "classMember ic (OneOf xs) c = (canonicalize ic c \<in> set (map (canonicalize ic) xs))"

text \<open>
  The matcher is the backtracking matcher of ECMAScript, written as a list of
  successes: \<open>rmatch ic r (caps, s)\<close> lists, in the order backtracking tries them,
  the ways \<open>r\<close> can match a prefix of \<open>s\<close>, each as the captures set so far and the
  input that remains. Quantifiers are greedy: the longer alternative comes first.
\<close>

type_synonym captures = "(nat \<times> jsstring) list"

fun star :: "(jschar \<Rightarrow> bool) \<Rightarrow> jsstring \<Rightarrow> jsstring list" where
  "star P [] = [[]]"
| "star P (c # s) = (if P c then star P s @ [c # s] else [c # s])"

fun rmatch :: "bool \<Rightarrow> rx \<Rightarrow> captures \<times> jsstring \<Rightarrow> (captures \<times> jsstring) list" where
  "rmatch ic Eps st = [st]"
| "rmatch ic (Chr x) (cs, s) =
     (case s of
        [] \<Rightarrow> []
      | c # t \<Rightarrow> if canonicalize ic c = canonicalize ic x then [(cs, t)] else [])"
| "rmatch ic (Cls k) (cs, s) =
     (case s of
        [] \<Rightarrow> []
      | c # t \<Rightarrow> if classMember ic k c then [(cs, t)] else [])"
| "rmatch ic (Seq a b) st = concat (map (rmatch ic b) (rmatch ic a st))"
| "rmatch ic (Alt a b) st = rmatch ic a st @ rmatch ic b st"
| "rmatch ic (Opt a) st = rmatch ic a st @ [st]"
| "rmatch ic (Star k) (cs, s) = map (Pair cs) (star (classMember ic k) s)"
| "rmatch ic (Plus k) (cs, s) =
     (case s of
        [] \<Rightarrow> []
      | c # t \<Rightarrow> if classMember ic k c then map (Pair cs) (star (classMember ic k) t) else [])"
| "rmatch ic (Grp n a) (cs, s) =
     map (\<lambda>(cs', s'). ((n, take (length s - length s') s) # cs', s')) (rmatch ic a (cs, s))"

text \<open>
  A pattern: its body, whether it starts with \<open>^\<close> and ends with \<open>$\<close>, and the \<open>i\<close>
  flag. None of the three patterns has the \<open>g\<close> flag.
\<close>

record regex =
  body :: rx
  anchorStart :: bool
  anchorEnd :: bool
  ignoreCase :: bool

text \<open>
  A match starting at the head of \<open>s\<close>: the first success that satisfies \<open>$\<close>, with
  group 0 the matched text.
\<close>

definition matchAt :: "regex \<Rightarrow> jsstring \<Rightarrow> captures option" where
  "matchAt re s =
     (case filter (\<lambda>(cs, r). if anchorEnd re then r = [] else True)
             (rmatch (ignoreCase re) (body re) ([], s)) of
        [] \<Rightarrow> None
      | (cs, r) # _ \<Rightarrow> Some ((0, take (length s - length r) s) # cs))"

fun search :: "regex \<Rightarrow> jsstring \<Rightarrow> captures option" where
  "search re [] = matchAt re []"
| "search re (c # s) =
     (case matchAt re (c # s) of
        Some m \<Rightarrow> Some m
      | None \<Rightarrow> search re s)"

text \<open>\<open>text.match(pattern)\<close>: \<open>None\<close> is \<open>null\<close>.\<close>

definition jsMatch :: "jsstring \<Rightarrow> regex \<Rightarrow> captures option" where
  "jsMatch text re = (if anchorStart re then matchAt re text else search re text)"

text \<open>\<open>match[n]\<close>: \<open>None\<close> is \<open>undefined\<close>, the value of a group that took no part.\<close>

definition capture :: "captures \<Rightarrow> nat \<Rightarrow> jsstring option" where
  "capture m n = map_of m n"

text \<open>\<open>pattern.toString()\<close>: the source text of the pattern between slashes.\<close>

fun classSource :: "charClass \<Rightarrow> jsstring" where
  "classSource Digit = [92, 100]"
| "classSource Space = [92, 115]"
| "classSource (OneOf xs) = [91] @ xs @ [93]"

fun rxSource :: "rx \<Rightarrow> jsstring" where
  "rxSource Eps = []"
| "rxSource (Chr c) = (if c = 46 then [92, 46] else [c])"
| "rxSource (Cls k) = classSource k"
| "rxSource (Seq a b) = rxSource a @ rxSource b"
| "rxSource (Alt a b) = rxSource a @ [124] @ rxSource b"
| "rxSource (Opt a) = rxSource a @ [63]"
| "rxSource (Star k) = classSource k @ [42]"
| "rxSource (Plus k) = classSource k @ [43]"
| "rxSource (Grp n a) = [40] @ rxSource a @ [41]"

definition toString :: "regex \<Rightarrow> jsstring" where
  "toString re =
     [47] @ (if anchorStart re then [94] else []) @ rxSource (body re)
     @ (if anchorEnd re then [36] else []) @ [47] @ (if ignoreCase re then [105] else [])"

fun startsWith :: "jsstring \<Rightarrow> jsstring \<Rightarrow> bool" where
  "startsWith s [] = True"
| "startsWith [] (p # ps) = False"
| "startsWith (c # s) (p # ps) = (c = p \<and> startsWith s ps)"

fun stringIncludes :: "jsstring \<Rightarrow> jsstring \<Rightarrow> bool" where
  "stringIncludes [] p = startsWith [] p"
| "stringIncludes (c # s) p = (startsWith (c # s) p \<or> stringIncludes s p)"

subsection \<open>Numbers\<close>

text \<open>
  A JavaScript number is a double: a finite value, written as the real it denotes, one
  of the two infinities, or \<open>NaN\<close>. The two zeros are not told apart.
\<close>

datatype number = Num real | Infinity | NegInfinity | NaN

text \<open>
  The Number value for a real (ECMAScript 6.1.6.1): the nearest double, a tie going
  to the even significand. A double has 53 significant bits and an exponent from -1022
  to 1023; below 2 to the power -1022 the spacing stays that of the smallest exponent,
  and a magnitude that rounds to 2 to the power 1024 or more is an infinity.
  \<open>exponentOf a\<close> finds the exponent of \<open>a\<close> by halving or doubling, \<open>magnitude a\<close>
  rounds \<open>a\<close> to a multiple of the spacing at that exponent.
\<close>

definition pow2 :: "int \<Rightarrow> real" where
  "pow2 e = (if 0 \<le> e then 2 ^ nat e else 1 / 2 ^ nat (- e))"

fun halvings :: "nat \<Rightarrow> real \<Rightarrow> nat" where
  "halvings 0 x = 0"
| "halvings (Suc k) x = (if x < 2 then 0 else Suc (halvings k (x / 2)))"

fun doublings :: "nat \<Rightarrow> real \<Rightarrow> nat" where
  "doublings 0 x = 0"
| "doublings (Suc k) x = (if 1 \<le> x then 0 else Suc (doublings k (x * 2)))"

definition exponentOf :: "real \<Rightarrow> int" where
  "exponentOf a = (if 1 \<le> a then int (halvings 1024 a) else - int (doublings 1022 a))"

definition roundHalfEven :: "real \<Rightarrow> int" where
  "roundHalfEven y =
     (let n = \<lfloor>y\<rfloor>; r = y - of_int n
      in if r < 1 / 2 then n else if 1 / 2 < r then n + 1 else if even n then n else n + 1)"

definition magnitude :: "real \<Rightarrow> real" where
  "magnitude a =
     (let q = pow2 (exponentOf a - 52) in of_int (roundHalfEven (a / q)) * q)"

definition toNumber :: "real \<Rightarrow> number" where
  "toNumber x =
     (let y = magnitude \<bar>x\<bar>
      in if 2 ^ 1024 \<le> y then (if 0 < x then Infinity else NegInfinity)
         else Num (if 0 \<le> x then y else - y))"

text \<open>
  The operators \<open>+\<close>, \<open>/\<close> and unary \<open>-\<close> of the source: the exact result rounded to a
  double, with the cases of IEEE 754 for infinities and \<open>NaN\<close>. A zero divisor counts as
  the positive zero.
\<close>

fun numAdd :: "number \<Rightarrow> number \<Rightarrow> number" where
  "numAdd (Num x) (Num y) = toNumber (x + y)"
| "numAdd NaN y = NaN"
| "numAdd x NaN = NaN"
| "numAdd Infinity NegInfinity = NaN"
| "numAdd NegInfinity Infinity = NaN"
| "numAdd Infinity y = Infinity"
| "numAdd x Infinity = Infinity"
| "numAdd NegInfinity y = NegInfinity"
| "numAdd x NegInfinity = NegInfinity"

fun numDiv :: "number \<Rightarrow> number \<Rightarrow> number" where
  "numDiv (Num x) (Num y) =
     (if y = 0 then (if x = 0 then NaN else if 0 < x then Infinity else NegInfinity)
      else toNumber (x / y))"
| "numDiv NaN y = NaN"
| "numDiv x NaN = NaN"
| "numDiv (Num x) y = Num 0"
| "numDiv Infinity (Num y) = (if 0 \<le> y then Infinity else NegInfinity)"
| "numDiv NegInfinity (Num y) = (if 0 \<le> y then NegInfinity else Infinity)"
| "numDiv x y = NaN"

fun numNeg :: "number \<Rightarrow> number" where
  "numNeg (Num x) = Num (- x)"
| "numNeg Infinity = NegInfinity"
| "numNeg NegInfinity = Infinity"
| "numNeg NaN = NaN"

definition digitsValue :: "jsstring \<Rightarrow> nat" where
  "digitsValue ds = foldl (\<lambda>n c. 10 * n + (c - 48)) 0 ds"

text \<open>
  \<open>parseInt\<close> and \<open>parseFloat\<close> on decimal text: leading white space, a sign, the
  longest run of digits (for \<open>parseFloat\<close> with a fraction), \<open>NaN\<close> when there is no
  digit; the result is the Number value for the numeral read, so a long numeral is
  rounded and a very long one is an infinity. ECMAScript allows an implementation to
  round a numeral of more than 20 significant digits less exactly; the engines round
  it correctly, as is done here. The hexadecimal prefix, exponents and the word
  \<open>Infinity\<close> are not modelled: the arguments here are capture groups made of digits,
  a minus sign and a point.
\<close>

definition splitSign :: "jsstring \<Rightarrow> real \<times> jsstring" where
  "splitSign s =
     (case dropWhile isSpace s of
        [] \<Rightarrow> (1, [])
      | c # r \<Rightarrow> if c = 45 then (- 1, r) else if c = 43 then (1, r) else (1, c # r))"

definition parseInt :: "jsstring \<Rightarrow> number" where
  "parseInt s =
     (case splitSign s of (sign, u) \<Rightarrow>
        (let ds = takeWhile isDigit u
         in if ds = [] then NaN else toNumber (sign * real (digitsValue ds))))"

definition parseFloat :: "jsstring \<Rightarrow> number" where
  "parseFloat s =
     (case splitSign s of (sign, u) \<Rightarrow>
        (let ip = takeWhile isDigit u;
             fp = (case dropWhile isDigit u of
                     [] \<Rightarrow> []
                   | c # f \<Rightarrow> if c = 46 then takeWhile isDigit f else [])
         in if ip = [] \<and> fp = [] then NaN
            else toNumber
                   (sign * (real (digitsValue ip) + real (digitsValue fp) / 10 ^ length fp))))"

subsection \<open>The parsers\<close>

text \<open>
  The pattern of \<open>parseDMS\<close>:
  \<open>(\d+)\<degree>\s*(\d+)?'?\s*(\d+(\.\d+)?)?"?\s*([NS]|[EW])\<close> with the flag \<open>i\<close>.
\<close>

definition dmsPattern :: regex where
  "dmsPattern =
     \<lparr>body = seqs
        [Grp 1 (Plus Digit), Chr 176, Star Space,
         Opt (Grp 2 (Plus Digit)), Opt (Chr 39), Star Space,
         Opt (Grp 3 (Seq (Plus Digit) (Opt (Grp 4 (Seq (Chr 46) (Plus Digit)))))),
         Opt (Chr 34), Star Space,
         Grp 5 (Alt (Cls (OneOf [78, 83])) (Cls (OneOf [69, 87])))],
      anchorStart = False, anchorEnd = False, ignoreCase = True\<rparr>"

text \<open>
  \<open>parseDMS\<close>; \<open>None\<close> is \<open>null\<close>. A group that took no part is falsy, so its
  component is 0. Group 5 is not optional: every match has it.
\<close>

definition parseDMS :: "jsstring \<Rightarrow> number option" where
  "parseDMS dms =
     (case jsMatch dms dmsPattern of
        None \<Rightarrow> None
      | Some parts \<Rightarrow>
          (let degrees = (case capture parts 1 of None \<Rightarrow> NaN | Some g \<Rightarrow> parseInt g);
               minutes = (case capture parts 2 of None \<Rightarrow> Num 0 | Some g \<Rightarrow>
                            if g = [] then Num 0 else parseInt g);
               seconds = (case capture parts 3 of None \<Rightarrow> Num 0 | Some g \<Rightarrow>
                            if g = [] then Num 0 else parseFloat g);
               direction = (case capture parts 5 of None \<Rightarrow> [] | Some g \<Rightarrow> toUpperCase g);
               dd = numAdd (numAdd degrees (numDiv minutes (Num 60))) (numDiv seconds (Num 3600))
           in Some (if direction = [83] \<or> direction = [87] then numNeg dd else dd)))"

text \<open>
  The two patterns of \<open>parseCoordinates\<close>, in the order of the array:
  \<open>^(-?\d+\.?\d*),\s*(-?\d+\.?\d*)$\<close> and
  \<open>^(-?\d+\<degree>\s*\d+'?\s*\d+(\.\d+)?"?\s*[NS])\s*,?\s*(-?\d+\<degree>\s*\d+'?\s*\d+(\.\d+)?"?\s*[EW])$\<close>.
\<close>

definition decimalNumber :: rx where
  "decimalNumber = seqs [Opt (Chr 45), Plus Digit, Opt (Chr 46), Star Digit]"

definition decimalPattern :: regex where
  "decimalPattern =
     \<lparr>body = seqs [Grp 1 decimalNumber, Chr 44, Star Space, Grp 2 decimalNumber],
      anchorStart = True, anchorEnd = True, ignoreCase = False\<rparr>"

definition dmsPairPattern :: regex where
  "dmsPairPattern =
     \<lparr>body = seqs
        [Grp 1 (seqs [Opt (Chr 45), Plus Digit, Chr 176, Star Space, Plus Digit, Opt (Chr 39),
                      Star Space, Plus Digit, Opt (Grp 2 (Seq (Chr 46) (Plus Digit))),
                      Opt (Chr 34), Star Space, Cls (OneOf [78, 83])]),
         Star Space, Opt (Chr 44), Star Space,
         Grp 3 (seqs [Opt (Chr 45), Plus Digit, Chr 176, Star Space, Plus Digit, Opt (Chr 39),
                      Star Space, Plus Digit, Opt (Grp 4 (Seq (Chr 46) (Plus Digit))),
                      Opt (Chr 34), Star Space, Cls (OneOf [69, 87])])],
      anchorStart = True, anchorEnd = True, ignoreCase = False\<rparr>"

definition patterns :: "regex list" where
  "patterns = [decimalPattern, dmsPairPattern]"

text \<open>
  A coordinate as \<open>parseCoordinates\<close> returns it: each field a number, or \<open>null\<close> when
  \<open>parseDMS\<close> returned \<open>null\<close>.
\<close>

type_synonym coordinates = "number option latLngOf"

text \<open>
  The loop \<open>for (const pattern of patterns)\<close>; falling out of it returns \<open>null\<close>.
  \<open>parseFloat\<close> of a group that took no part is \<open>NaN\<close>.
\<close>

fun tryPatterns :: "regex list \<Rightarrow> jsstring \<Rightarrow> coordinates option" where
  "tryPatterns [] text = None"
| "tryPatterns (pattern # rest) text =
     (case jsMatch text pattern of
        None \<Rightarrow> tryPatterns rest text
      | Some m \<Rightarrow>
          if stringIncludes (toString pattern) (js ''NS'')
          then Some \<lparr>lat = (case capture m 1 of None \<Rightarrow> None | Some g \<Rightarrow> parseDMS g),
                     lng = (case capture m 3 of None \<Rightarrow> None | Some g \<Rightarrow> parseDMS g)\<rparr>
          else Some \<lparr>lat = Some (case capture m 1 of None \<Rightarrow> NaN | Some g \<Rightarrow> parseFloat g),
                     lng = Some (case capture m 2 of None \<Rightarrow> NaN | Some g \<Rightarrow> parseFloat g)\<rparr>)"

definition parseCoordinates :: "jsstring \<Rightarrow> coordinates option" where
  "parseCoordinates text = tryPatterns patterns text"

subsection \<open>Notions used in the statements and proofs about the parsers\<close>

text \<open>
  The strings a pattern body can consume, and the characters that can occur in them.
\<close>

fun lang :: "bool \<Rightarrow> rx \<Rightarrow> jsstring set" where
  "lang ic Eps = {[]}"
| "lang ic (Chr x) = {[c] | c. canonicalize ic c = canonicalize ic x}"
| "lang ic (Cls k) = {[c] | c. classMember ic k c}"
| "lang ic (Seq a b) = {u @ v | u v. u \<in> lang ic a \<and> v \<in> lang ic b}"
| "lang ic (Alt a b) = lang ic a \<union> lang ic b"
| "lang ic (Opt a) = insert [] (lang ic a)"
| "lang ic (Star k) = {u. list_all (classMember ic k) u}"
| "lang ic (Plus k) = {u. u \<noteq> [] \<and> list_all (classMember ic k) u}"
| "lang ic (Grp n a) = lang ic a"

fun alphabet :: "bool \<Rightarrow> rx \<Rightarrow> jschar \<Rightarrow> bool" where
  "alphabet ic Eps c = False"
| "alphabet ic (Chr x) c = (canonicalize ic c = canonicalize ic x)"
| "alphabet ic (Cls k) c = classMember ic k c"
| "alphabet ic (Seq a b) c = (alphabet ic a c \<or> alphabet ic b c)"
| "alphabet ic (Alt a b) c = (alphabet ic a c \<or> alphabet ic b c)"
| "alphabet ic (Opt a) c = alphabet ic a c"
| "alphabet ic (Star k) c = classMember ic k c"
| "alphabet ic (Plus k) c = classMember ic k c"
| "alphabet ic (Grp n a) c = alphabet ic a c"

text \<open>
  The path of the matcher on which no quantifier gives anything back: \<open>Match\<close> when
  that path succeeds (it is then the first success of \<open>rmatch\<close>), \<open>Fail\<close> when the
  pattern cannot match at all, \<open>Unknown\<close> when only backtracking could tell.
\<close>

datatype 'a verdict = Match 'a | Fail | Unknown

fun greedy :: "bool \<Rightarrow> rx \<Rightarrow> captures \<times> jsstring \<Rightarrow> (captures \<times> jsstring) verdict" where
  "greedy ic Eps st = Match st"
| "greedy ic (Chr x) (cs, s) =
     (case s of
        [] \<Rightarrow> Fail
      | c # t \<Rightarrow> if canonicalize ic c = canonicalize ic x then Match (cs, t) else Fail)"
| "greedy ic (Cls k) (cs, s) =
     (case s of
        [] \<Rightarrow> Fail
      | c # t \<Rightarrow> if classMember ic k c then Match (cs, t) else Fail)"
| "greedy ic (Seq a b) st =
     (case greedy ic a st of
        Match st1 \<Rightarrow> (case greedy ic b st1 of Match st2 \<Rightarrow> Match st2 | _ \<Rightarrow> Unknown)
      | Fail \<Rightarrow> Fail
      | Unknown \<Rightarrow> Unknown)"
| "greedy ic (Alt a b) st =
     (case greedy ic a st of
        Match st1 \<Rightarrow> Match st1
      | Fail \<Rightarrow> greedy ic b st
      | Unknown \<Rightarrow> Unknown)"
| "greedy ic (Opt a) st =
     (case greedy ic a st of
        Match st1 \<Rightarrow> Match st1
      | Fail \<Rightarrow> Match st
      | Unknown \<Rightarrow> Unknown)"
| "greedy ic (Star k) (cs, s) = Match (cs, dropWhile (classMember ic k) s)"
| "greedy ic (Plus k) (cs, s) =
     (case s of
        [] \<Rightarrow> Fail
      | c # t \<Rightarrow>
          if classMember ic k c then Match (cs, dropWhile (classMember ic k) t) else Fail)"
| "greedy ic (Grp n a) (cs, s) =
     (case greedy ic a (cs, s) of
        Match (cs', s') \<Rightarrow> Match ((n, take (length s - length s') s) # cs', s')
      | Fail \<Rightarrow> Fail
      | Unknown \<Rightarrow> Unknown)"

text \<open>
  Decimal text as it is written: an optional minus sign, a run of digits, and an
  optional point followed by digits (possibly none); and the number it denotes.
\<close>

definition decimalText :: "bool \<Rightarrow> jsstring \<Rightarrow> jsstring option \<Rightarrow> jsstring" where
  "decimalText negative ip fr =
     (if negative then [45] else []) @ ip @ (case fr of None \<Rightarrow> [] | Some fp \<Rightarrow> 46 # fp)"

definition decimalValue :: "bool \<Rightarrow> jsstring \<Rightarrow> jsstring option \<Rightarrow> real" where
  "decimalValue negative ip fr =
     (if negative then - 1 else 1)
     * (real (digitsValue ip)
        + (case fr of None \<Rightarrow> 0 | Some fp \<Rightarrow> real (digitsValue fp) / 10 ^ length fp))"

definition digitRun :: "jsstring \<Rightarrow> bool" where
  "digitRun ds = (ds \<noteq> [] \<and> list_all isDigit ds)"

definition decimalOk :: "jsstring \<Rightarrow> jsstring option \<Rightarrow> bool" where
  "decimalOk ip fr =
     (digitRun ip \<and> (case fr of None \<Rightarrow> True | Some fp \<Rightarrow> list_all isDigit fp))"

text \<open>
  A DMS token as it is written: the degree digits, the degree sign, then optionally
  the minute digits, an apostrophe, the seconds (digits with an optional fraction), a
  double quote, and the hemisphere letter, with white space allowed after the degree
  sign, after the minutes and after the seconds.
\<close>

record dmsToken =
  degreeDigits :: jsstring
  space1 :: jsstring
  minuteDigits :: jsstring
  apostrophe :: bool
  space2 :: jsstring
  secondsText :: "(jsstring \<times> jsstring option) option"
  doubleQuote :: bool
  space3 :: jsstring
  hemisphere :: jschar

definition dmsText :: "dmsToken \<Rightarrow> jsstring" where
  "dmsText t =
     degreeDigits t @ [176] @ space1 t @ minuteDigits t
     @ (if apostrophe t then [39] else []) @ space2 t
     @ (case secondsText t of None \<Rightarrow> [] | Some (ip, fr) \<Rightarrow> decimalText False ip fr)
     @ (if doubleQuote t then [34] else []) @ space3 t @ [hemisphere t]"

text \<open>
  The token has the shape of the pattern when its parts are of their kinds, a seconds
  fraction having at least one digit. Its parts can be told apart when seconds are
  separated from what precedes them by the apostrophe, or by white space after the
  minute digits; without that, digits that run together are split by the matcher.
\<close>

definition dmsTokenShape :: "dmsToken \<Rightarrow> bool" where
  "dmsTokenShape t =
     (digitRun (degreeDigits t)
      \<and> list_all isSpace (space1 t) \<and> list_all isSpace (space2 t) \<and> list_all isSpace (space3 t)
      \<and> list_all isDigit (minuteDigits t)
      \<and> (case secondsText t of
            None \<Rightarrow> True
          | Some (ip, fr) \<Rightarrow> digitRun ip \<and> (case fr of None \<Rightarrow> True | Some fp \<Rightarrow> digitRun fp))
      \<and> upperUnit (hemisphere t) \<in> {78, 83, 69, 87})"

definition separated :: "dmsToken \<Rightarrow> bool" where
  "separated t =
     (secondsText t \<noteq> None \<longrightarrow> apostrophe t \<or> (minuteDigits t \<noteq> [] \<and> space2 t \<noteq> []))"

definition dmsTokenOk :: "dmsToken \<Rightarrow> bool" where
  "dmsTokenOk t = (dmsTokenShape t \<and> separated t)"


text \<open>
  The decimal degrees the specification assigns to a token: degrees plus minutes over
  60 plus seconds over 3600, a missing part counting 0, negated for S and W.
\<close>

definition dmsValue :: "dmsToken \<Rightarrow> real" where
  "dmsValue t =
     (if upperUnit (hemisphere t) = 83 \<or> upperUnit (hemisphere t) = 87 then - 1 else 1)
     * (real (digitsValue (degreeDigits t))
        + real (digitsValue (minuteDigits t)) / 60
        + (case secondsText t of None \<Rightarrow> 0 | Some (ip, fr) \<Rightarrow> decimalValue False ip fr) / 3600)"

text \<open>
  The same formula as the source evaluates it, in the arithmetic of doubles: each
  numeral, quotient and sum rounded.
\<close>

definition dmsNumber :: "dmsToken \<Rightarrow> number" where
  "dmsNumber t =
     (let degrees = toNumber (real (digitsValue (degreeDigits t)));
          minutes = toNumber (real (digitsValue (minuteDigits t)));
          seconds = (case secondsText t of
                       None \<Rightarrow> Num 0
                     | Some (ip, fr) \<Rightarrow> toNumber (decimalValue False ip fr));
          dd = numAdd (numAdd degrees (numDiv minutes (Num 60))) (numDiv seconds (Num 3600))
      in if upperUnit (hemisphere t) = 83 \<or> upperUnit (hemisphere t) = 87
         then numNeg dd else dd)"

text \<open>Tokens whose degrees, minutes and seconds are each at most 1000.\<close>

definition moderate :: "dmsToken \<Rightarrow> bool" where
  "moderate t =
     (digitsValue (degreeDigits t) \<le> 1000 \<and> digitsValue (minuteDigits t) \<le> 1000
      \<and> (case secondsText t of None \<Rightarrow> True | Some (ip, fr) \<Rightarrow> decimalValue False ip fr \<le> 1000))"

text \<open>The ranges of the data model: latitude within 90 degrees, longitude within 180.\<close>

definition inRange :: "coordinates \<Rightarrow> bool" where
  "inRange c =
     (case (lat c, lng c) of
        (Some (Num x), Some (Num y)) \<Rightarrow> - 90 \<le> x \<and> x \<le> 90 \<and> - 180 \<le> y \<and> y \<le> 180
      | _ \<Rightarrow> False)"

text \<open>Whether a string starts with a character of a given kind.\<close>

fun heads :: "(jschar \<Rightarrow> bool) \<Rightarrow> jsstring \<Rightarrow> bool" where
  "heads P [] = False"
| "heads P (c # s) = P c"



text \<open>The groups that take part in every match of a pattern body.\<close>

fun mandatory :: "rx \<Rightarrow> nat set" where
  "mandatory Eps = {}"
| "mandatory (Chr x) = {}"
| "mandatory (Cls k) = {}"
| "mandatory (Seq a b) = mandatory a \<union> mandatory b"
| "mandatory (Alt a b) = mandatory a \<inter> mandatory b"
| "mandatory (Opt a) = {}"
| "mandatory (Star k) = {}"
| "mandatory (Plus k) = {}"
| "mandatory (Grp n a) = insert n (mandatory a)"

text \<open>
  The strings a pattern body can consume, each with the captures a match of it adds
  (the latest first).
\<close>

fun clang :: "bool \<Rightarrow> rx \<Rightarrow> (jsstring \<times> captures) set" where
  "clang ic Eps = {([], [])}"
| "clang ic (Chr x) = {([c], []) | c. canonicalize ic c = canonicalize ic x}"
| "clang ic (Cls k) = {([c], []) | c. classMember ic k c}"
| "clang ic (Seq a b) = {(u @ v, nb @ na) | u v na nb. (u, na) \<in> clang ic a \<and> (v, nb) \<in> clang ic b}"
| "clang ic (Alt a b) = clang ic a \<union> clang ic b"
| "clang ic (Opt a) = insert ([], []) (clang ic a)"
| "clang ic (Star k) = {(u, []) | u. list_all (classMember ic k) u}"
| "clang ic (Plus k) = {(u, []) | u. u \<noteq> [] \<and> list_all (classMember ic k) u}"
| "clang ic (Grp n a) = {(u, (n, u) # na) | u na. (u, na) \<in> clang ic a}"

text \<open>
  A DMS pair as it is written: two tokens, each possibly after a minus sign, with white
  space, an optional comma and white space between them. The pair pattern asks of each
  token that minutes and seconds are both written, and of the hemisphere letters that
  they are capital \<open>N\<close> or \<open>S\<close> for the first token and \<open>E\<close> or \<open>W\<close> for the second.
\<close>

definition signedToken :: "bool \<Rightarrow> dmsToken \<Rightarrow> jsstring" where
  "signedToken negative t = (if negative then [45] else []) @ dmsText t"

definition dmsPairText ::
  "bool \<Rightarrow> dmsToken \<Rightarrow> jsstring \<Rightarrow> bool \<Rightarrow> jsstring \<Rightarrow> bool \<Rightarrow> dmsToken \<Rightarrow> jsstring" where
  "dmsPairText neg1 t1 sp1 comma sp2 neg2 t2 =
     signedToken neg1 t1 @ sp1 @ (if comma then [44] else []) @ sp2 @ signedToken neg2 t2"

definition pairTokenOk :: "jschar list \<Rightarrow> dmsToken \<Rightarrow> bool" where
  "pairTokenOk letters t =
     (dmsTokenOk t \<and> minuteDigits t \<noteq> [] \<and> secondsText t \<noteq> None \<and> hemisphere t \<in> set letters)"

text \<open>The capture of the fraction group inside a token of the pair pattern.\<close>

definition fractionCapture :: "nat \<Rightarrow> dmsToken \<Rightarrow> captures" where
  "fractionCapture g t =
     (case secondsText t of
        Some (ip, Some fp) \<Rightarrow> [(g, 46 # fp)]
      | _ \<Rightarrow> [])"

text \<open>The body of one token in the pair pattern, ending in the class of its letters.\<close>

definition pairToken :: "nat \<Rightarrow> jschar list \<Rightarrow> rx" where
  "pairToken g letters =
     seqs [Opt (Chr 45), Plus Digit, Chr 176, Star Space, Plus Digit, Opt (Chr 39),
           Star Space, Plus Digit, Opt (Grp g (Seq (Chr 46) (Plus Digit))),
           Opt (Chr 34), Star Space, Cls (OneOf letters)]"

section \<open>Theorems\<close>

subsection \<open>Measurement\<close>






text \<open>
  C5. The area measured for a rectangle with corners \<open>northEast\<close> and \<open>southWest\<close> is
  the polygon measurement (the same area routine) of the ring
  \<open>[northEast, (northEast.lat, southWest.lng), southWest, (southWest.lat, northEast.lng)]\<close>.
\<close>

theorem rectangle_refines_polygon:
  "calculateRectangleArea geodesicArea (RectangleShape bounds)
     = spec_rectangle_area geodesicArea (northEast bounds) (southWest bounds)"
  by (simp add: spec_rectangle_area_def rectangleAsPolygon_def Let_def)


text \<open>
  C6 (as the claim states it, refuted). A polyline without points, and one with a
  single point, measure 0: the loop body never runs, nothing fails.
\<close>

theorem degenerate_polyline_counterexample:
  "calculateDistance haversine (PolylineShape []) = Inr 0
   \<and> calculateDistance haversine (PolylineShape [\<lparr>lat = 1, lng = 1\<rparr>]) = Inr 0
   \<and> calculateDistance haversine (PolylineShape [\<lparr>lat = 1, lng = 1\<rparr>]) \<noteq> Inl InvalidShape"
  by (simp add: distanceLoop.simps)

text \<open>
  C6 (amended). No measurement checks the number of points. A polyline with fewer
  than two points measures 0, and a polygon, whatever the number of its points,
  measures what the area routine returns for its outer ring.
\<close>

theorem degenerate_shapes_measured:
  "(length ps < 2 \<longrightarrow> calculateDistance d (PolylineShape ps) = Inr 0)
   \<and> calculateArea geodesicArea (PolygonShape outer holes) ''polygon'' = Inr (geodesicArea outer)"
  by (simp add: distanceLoop.simps calculateArea_def)

theorem degenerate_shapes_measured_witness:
  "length [\<lparr>lat = 1, lng = 1\<rparr>] < 2
   \<and> calculateDistance haversine (PolylineShape [\<lparr>lat = 1, lng = 1\<rparr>]) = Inr 0
   \<and> calculateArea planimeterArea (PolygonShape [\<lparr>lat = 0, lng = 0\<rparr>, \<lparr>lat = 1, lng = 1\<rparr>] []) ''polygon''
       = Inr (planimeterArea [\<lparr>lat = 0, lng = 0\<rparr>, \<lparr>lat = 1, lng = 1\<rparr>])
   \<and> planimeterArea [\<lparr>lat = 0, lng = 0\<rparr>, \<lparr>lat = 1, lng = 1\<rparr>] = 0"
  using degenerate_shapes_measured[of "[\<lparr>lat = 1, lng = 1\<rparr>]" haversine planimeterArea
      "[\<lparr>lat = 0, lng = 0\<rparr>, \<lparr>lat = 1, lng = 1\<rparr>]" "[]"]
  by (simp add: planimeterArea_def)


subsection \<open>Created and removed shapes\<close>

text \<open>
  C7 (as the claim states it, refuted). With measurement off and drawing on, a created
  circle gets its area popup all the same.
\<close>

theorem circle_measured_without_measure_counterexample:
  "enableMeasure \<lparr>enableDraw = True, enableMeasure = False\<rparr> = False
   \<and> map_option popup
        (drawnItems
           (fireCreated haversine planimeterArea \<lparr>enableDraw = True, enableMeasure = False\<rparr>
              \<lparr>layerId = 1,
               layer = \<lparr>shape = CircleShape \<lparr>lat = 0, lng = 0\<rparr> 1000, popup = None, listening = False\<rparr>,
               layerType = ''circle''\<rparr>
              \<lparr>drawnItems = Map.empty, onMap = {}, openPopups = {}\<rparr>)
           1)
       = Some (Some (AreaText (pi * 1000 * 1000)))"
  by (simp add: fireCreated_def initDrawTools_def onCreated_def addLayer_def measurementOf_def
      calculateArea_def bindPopup_def openPopup_def)

text \<open>
  C7 (amended). For a created event the component handles (draw tools initialised),
  whose layer is new to the feature group and has no popup yet, the layer is stored
  and carries one measurement when its kind is polyline, polygon, circle or rectangle
  and measurement is enabled or the kind is circle or rectangle; it carries none
  otherwise. A layer never carries more than one: the popup slot holds at most one.
\<close>

theorem created_measurement_attached:
  assumes "layerType ev = layerTypeOf (shape (layer ev))"
    and "popup (layer ev) = None"
    and "drawnItems st (layerId ev) = None"
    and "initDrawTools p \<noteq> None"
  shows "\<exists>obj. drawnItems (fireCreated d ga p ev st) (layerId ev) = Some obj
           \<and> shape obj = shape (layer ev)
           \<and> measurementCount obj
               = (if layerType ev \<noteq> ''marker''
                     \<and> (enableMeasure p \<or> layerType ev = ''circle'' \<or> layerType ev = ''rectangle'')
                  then 1 else 0)"
proof -
  from assms(4) obtain tb where "initDrawTools p = Some tb"
    by auto
  then have f: "fireCreated d ga p ev st = onCreated d ga p ev st"
    by (simp add: fireCreated_def)
  show ?thesis
    unfolding f using assms(1-3)
    by (cases "shape (layer ev)")
       (simp_all add: onCreated_def addLayer_def measurementOf_def calculateArea_def
          bindPopup_def openPopup_def measurementCount_def Let_def)
qed

theorem created_measurement_attached_witness:
  "\<exists>obj. drawnItems
            (fireCreated haversine planimeterArea \<lparr>enableDraw = True, enableMeasure = True\<rparr>
               \<lparr>layerId = 1,
                layer = \<lparr>shape = RectangleShape \<lparr>northEast = \<lparr>lat = 1, lng = 1\<rparr>, southWest = \<lparr>lat = 0, lng = 0\<rparr>\<rparr>,
                         popup = None, listening = False\<rparr>,
                layerType = ''rectangle''\<rparr>
               \<lparr>drawnItems = Map.empty, onMap = {}, openPopups = {}\<rparr>)
            1 = Some obj
         \<and> shape obj = RectangleShape \<lparr>northEast = \<lparr>lat = 1, lng = 1\<rparr>, southWest = \<lparr>lat = 0, lng = 0\<rparr>\<rparr>
         \<and> measurementCount obj = 1"
  using created_measurement_attached[of
      "\<lparr>layerId = 1,
        layer = \<lparr>shape = RectangleShape \<lparr>northEast = \<lparr>lat = 1, lng = 1\<rparr>, southWest = \<lparr>lat = 0, lng = 0\<rparr>\<rparr>,
                 popup = None, listening = False\<rparr>,
        layerType = ''rectangle''\<rparr>"
      "\<lparr>drawnItems = Map.empty, onMap = {}, openPopups = {}\<rparr>"
      "\<lparr>enableDraw = True, enableMeasure = True\<rparr>" haversine planimeterArea]
  by (simp add: initDrawTools_def)


text \<open>
  The property \<open>popupsBound\<close> holds of the empty state and is kept by both handlers,
  so it holds in every state the component reaches.
\<close>

lemma popupsBound_empty: "popupsBound \<lparr>drawnItems = Map.empty, onMap = {}, openPopups = {}\<rparr>"
  by (simp add: popupsBound_def)

lemma addLayer_popupsBound: "popupsBound st \<Longrightarrow> popupsBound (addLayer i obj st)"
  by (cases "drawnItems st i") (auto simp: popupsBound_def addLayer_def)

lemma bindPopup_popupsBound: "popupsBound st \<Longrightarrow> popupsBound (bindPopup i t st)"
  by (cases "drawnItems st i") (auto simp: popupsBound_def bindPopup_def)

lemma openPopup_popupsBound: "popupsBound st \<Longrightarrow> popupsBound (openPopup i st)"
  by (cases "drawnItems st i") (auto simp: popupsBound_def openPopup_def)

lemma fireCreated_popupsBound:
  assumes "popupsBound st"
  shows "popupsBound (fireCreated d ga p ev st)"
proof -
  have a: "popupsBound (addLayer (layerId ev) (layer ev) st)"
    using assms by (rule addLayer_popupsBound)
  have b: "popupsBound (openPopup (layerId ev) (bindPopup (layerId ev) t
             (addLayer (layerId ev) (layer ev) st)))" for t
    using a by (intro openPopup_popupsBound bindPopup_popupsBound)
  show ?thesis
    using assms a b
    by (simp add: fireCreated_def onCreated_def Let_def split: option.splits sum.splits)
qed

lemma removeLayer_popupsBound:
  assumes "popupsBound st"
  shows "popupsBound (snd (removeLayer i st))"
proof (cases "drawnItems st i")
  case None
  with assms show ?thesis by (simp add: removeLayer_def)
next
  case (Some obj)
  with assms show ?thesis
    by (auto simp: popupsBound_def removeLayer_def onLayerRemove_def layerOff_def
        removeFromMap_def detachPopup_def split: option.splits)
qed

text \<open>
  C8. In a state where every displayed popup is bound to its layer, removing a layer
  of the feature group runs the \<open>layerremove\<close> handler in the
  same step. Its first step closes and detaches the popup; when the removal is
  complete the popup slot of the layer is empty, its listeners are cleared, and the
  layer is neither in the feature group, nor on the map, nor among the layers with a
  displayed popup. The other layers are left as they were.
\<close>

theorem removal_detaches_measurement:
  assumes "drawnItems st i = Some obj" and "popupsBound st"
  shows "\<exists>obj' st'. removeLayer i st = (Some obj', st')
           \<and> popup (fst (detachPopup i (obj, st))) = None
           \<and> i \<notin> openPopups (snd (detachPopup i (obj, st)))
           \<and> shape obj' = shape obj \<and> popup obj' = None \<and> \<not> listening obj'
           \<and> drawnItems st' i = None \<and> i \<notin> onMap st' \<and> i \<notin> openPopups st'
           \<and> (\<forall>j. j \<noteq> i \<longrightarrow>
                 drawnItems st' j = drawnItems st j
                 \<and> (j \<in> onMap st' \<longleftrightarrow> j \<in> onMap st)
                 \<and> (j \<in> openPopups st' \<longleftrightarrow> j \<in> openPopups st))"
proof -
  have "popup obj = None \<Longrightarrow> i \<notin> openPopups st"
    using assms by (auto simp: popupsBound_def)
  then show ?thesis
    using assms(1)
    by (auto simp: removeLayer_def onLayerRemove_def layerOff_def removeFromMap_def detachPopup_def)
qed

theorem removal_detaches_measurement_witness:
  "\<exists>obj' st'.
     removeLayer 1
       \<lparr>drawnItems = [1 \<mapsto> \<lparr>shape = RectangleShape \<lparr>northEast = \<lparr>lat = 1, lng = 1\<rparr>, southWest = \<lparr>lat = 0, lng = 0\<rparr>\<rparr>,
                            popup = Some (AreaText 12308778361), listening = True\<rparr>],
        onMap = {1}, openPopups = {1}\<rparr> = (Some obj', st')
     \<and> popup obj' = None \<and> drawnItems st' 1 = None \<and> 1 \<notin> onMap st' \<and> 1 \<notin> openPopups st'"
proof -
  let ?obj = "\<lparr>shape = RectangleShape \<lparr>northEast = \<lparr>lat = 1, lng = 1\<rparr>, southWest = \<lparr>lat = 0, lng = 0\<rparr>\<rparr>,
               popup = Some (AreaText 12308778361), listening = True\<rparr>"
  let ?st = "\<lparr>drawnItems = [1 \<mapsto> ?obj], onMap = {1}, openPopups = {1}\<rparr>"
  have h1: "drawnItems ?st 1 = Some ?obj"
    by simp
  have h2: "popupsBound ?st"
    by (simp add: popupsBound_def)
  from removal_detaches_measurement[OF h1 h2] show ?thesis
    by blast
qed

text \<open>
  C9 (as the claim states it, refuted). With drawing on and measurement off the
  polygon tool is disabled, yet a created event of kind polygon is not rejected: the
  handler stores its layer in the feature group.
\<close>

theorem disabled_kind_not_rejected_counterexample:
  "polygon (drawOptions \<lparr>enableDraw = True, enableMeasure = False\<rparr>) = False
   \<and> map_option shape
        (drawnItems
           (fireCreated haversine planimeterArea \<lparr>enableDraw = True, enableMeasure = False\<rparr>
              \<lparr>layerId = 7,
               layer = \<lparr>shape = PolygonShape [\<lparr>lat = 0, lng = 0\<rparr>, \<lparr>lat = 0, lng = 1\<rparr>, \<lparr>lat = 1, lng = 0\<rparr>] [],
                        popup = None, listening = False\<rparr>,
               layerType = ''polygon''\<rparr>
              \<lparr>drawnItems = Map.empty, onMap = {}, openPopups = {}\<rparr>)
           7)
       = Some (PolygonShape [\<lparr>lat = 0, lng = 0\<rparr>, \<lparr>lat = 0, lng = 1\<rparr>, \<lparr>lat = 1, lng = 0\<rparr>] [])"
  by (simp add: drawOptions_def fireCreated_def initDrawTools_def onCreated_def addLayer_def)

text \<open>
  C9 (amended). The draw control offers the kinds by two props, not by one flag each:
  polyline and polygon exactly when \<open>enableMeasure\<close> is on, circle, marker and
  rectangle exactly when \<open>enableDraw\<close> is on (circle markers never). A disabled kind
  has no tool in the control; the created handler itself checks no kind: once the
  draw tools are initialised, every created event has its layer in the feature group
  afterwards, and when they are not initialised nothing listens and the state stays
  as it is.
\<close>

theorem kinds_enabled_by_two_props:
  "polyline (drawOptions p) = enableMeasure p
   \<and> polygon (drawOptions p) = enableMeasure p
   \<and> circle (drawOptions p) = enableDraw p
   \<and> marker (drawOptions p) = enableDraw p
   \<and> rectangle (drawOptions p) = enableDraw p
   \<and> circlemarker (drawOptions p) = False
   \<and> (initDrawTools p \<noteq> None \<longrightarrow> drawnItems (fireCreated d ga p ev st) (layerId ev) \<noteq> None)
   \<and> (initDrawTools p = None \<longrightarrow> fireCreated d ga p ev st = st)"
proof -
  have "drawnItems (onCreated d ga p ev st) (layerId ev) \<noteq> None"
    by (simp add: onCreated_def addLayer_def bindPopup_def openPopup_def Let_def
        split: option.splits sum.splits)
  then show ?thesis
    by (auto simp: drawOptions_def fireCreated_def)
qed

theorem kinds_enabled_by_two_props_witness:
  "initDrawTools \<lparr>enableDraw = True, enableMeasure = False\<rparr> \<noteq> None
   \<and> polygon (drawOptions \<lparr>enableDraw = True, enableMeasure = False\<rparr>) = False
   \<and> drawnItems
        (fireCreated haversine planimeterArea \<lparr>enableDraw = True, enableMeasure = False\<rparr>
           \<lparr>layerId = 7,
            layer = \<lparr>shape = PolygonShape [\<lparr>lat = 0, lng = 0\<rparr>, \<lparr>lat = 0, lng = 1\<rparr>, \<lparr>lat = 1, lng = 0\<rparr>] [],
                     popup = None, listening = False\<rparr>,
            layerType = ''polygon''\<rparr>
           \<lparr>drawnItems = Map.empty, onMap = {}, openPopups = {}\<rparr>)
        7 \<noteq> None
   \<and> initDrawTools \<lparr>enableDraw = False, enableMeasure = False\<rparr> = None
   \<and> fireCreated haversine planimeterArea \<lparr>enableDraw = False, enableMeasure = False\<rparr>
        \<lparr>layerId = 7,
         layer = \<lparr>shape = PolygonShape [\<lparr>lat = 0, lng = 0\<rparr>, \<lparr>lat = 0, lng = 1\<rparr>, \<lparr>lat = 1, lng = 0\<rparr>] [],
                  popup = None, listening = False\<rparr>,
         layerType = ''polygon''\<rparr>
        \<lparr>drawnItems = Map.empty, onMap = {}, openPopups = {}\<rparr>
       = \<lparr>drawnItems = Map.empty, onMap = {}, openPopups = {}\<rparr>"
  using kinds_enabled_by_two_props[of "\<lparr>enableDraw = True, enableMeasure = False\<rparr>"
      haversine planimeterArea
      "\<lparr>layerId = 7,
        layer = \<lparr>shape = PolygonShape [\<lparr>lat = 0, lng = 0\<rparr>, \<lparr>lat = 0, lng = 1\<rparr>, \<lparr>lat = 1, lng = 0\<rparr>] [],
                 popup = None, listening = False\<rparr>,
        layerType = ''polygon''\<rparr>"
      "\<lparr>drawnItems = Map.empty, onMap = {}, openPopups = {}\<rparr>"]
    kinds_enabled_by_two_props[of "\<lparr>enableDraw = False, enableMeasure = False\<rparr>"
      haversine planimeterArea
      "\<lparr>layerId = 7,
        layer = \<lparr>shape = PolygonShape [\<lparr>lat = 0, lng = 0\<rparr>, \<lparr>lat = 0, lng = 1\<rparr>, \<lparr>lat = 1, lng = 0\<rparr>] [],
                 popup = None, listening = False\<rparr>,
        layerType = ''polygon''\<rparr>"
      "\<lparr>drawnItems = Map.empty, onMap = {}, openPopups = {}\<rparr>"]
  by (simp add: initDrawTools_def)

subsection \<open>The first path of the matcher\<close>

text \<open>
  Where \<open>greedy\<close> reaches a verdict, the first result of \<open>rmatch\<close> is that verdict, so
  the deterministic reading decides \<open>matchAt\<close> on the texts it covers.
\<close>

lemma star_first: "\<exists>more. star P s = dropWhile P s # more"
  by (induction s) auto

lemma greedy_rmatch:
  "(greedy ic r st = Match st' \<longrightarrow> (\<exists>more. rmatch ic r st = st' # more))
   \<and> (greedy ic r st = Fail \<longrightarrow> rmatch ic r st = [])"
proof (induction r arbitrary: st st')
  case Eps
  show ?case by simp
next
  case (Chr x)
  show ?case by (cases st) (auto split: list.splits)
next
  case (Cls k)
  show ?case by (cases st) (auto split: list.splits)
next
  case (Seq a b)
  show ?case
  proof (cases "greedy ic a st")
    case (Match st1)
    then obtain more where a: "rmatch ic a st = st1 # more"
      using Seq.IH(1)[of st st1] by auto
    show ?thesis
    proof (cases "greedy ic b st1")
      case (Match st2)
      then obtain more' where "rmatch ic b st1 = st2 # more'"
        using Seq.IH(2)[of st1 st2] by auto
      with a Match \<open>greedy ic a st = Match st1\<close> show ?thesis by auto
    qed (use \<open>greedy ic a st = Match st1\<close> in auto)
  next
    case Fail
    then have "rmatch ic a st = []" using Seq.IH(1)[of st] by auto
    with Fail show ?thesis by simp
  next
    case Unknown
    then show ?thesis by simp
  qed
next
  case (Alt a b)
  show ?case
  proof (cases "greedy ic a st")
    case (Match st1)
    then obtain more where "rmatch ic a st = st1 # more"
      using Alt.IH(1)[of st st1] by auto
    with Match show ?thesis by auto
  next
    case Fail
    then have "rmatch ic a st = []" using Alt.IH(1)[of st] by auto
    with Fail Alt.IH(2)[of st st'] show ?thesis by simp
  next
    case Unknown
    then show ?thesis by simp
  qed
next
  case (Opt a)
  show ?case
  proof (cases "greedy ic a st")
    case (Match st1)
    then obtain more where "rmatch ic a st = st1 # more"
      using Opt.IH[of st st1] by auto
    with Match show ?thesis by auto
  next
    case Fail
    then have "rmatch ic a st = []" using Opt.IH[of st] by auto
    with Fail show ?thesis by auto
  next
    case Unknown
    then show ?thesis by simp
  qed
next
  case (Star k)
  show ?case
    using star_first[of "classMember ic k" "snd st"] by (cases st) auto
next
  case (Plus k)
  show ?case
  proof (cases st)
    case (Pair cs s)
    show ?thesis
    proof (cases s)
      case Nil
      with Pair show ?thesis by simp
    next
      case (Cons c t)
      with Pair star_first[of "classMember ic k" t] show ?thesis by auto
    qed
  qed
next
  case (Grp n a)
  show ?case
  proof (cases st)
    case (Pair cs s)
    show ?thesis
    proof (cases "greedy ic a (cs, s)")
      case (Match st1)
      then obtain more where "rmatch ic a (cs, s) = st1 # more"
        using Grp.IH[of "(cs, s)" st1] by auto
      with Match Pair show ?thesis by (cases st1) auto
    next
      case Fail
      then have "rmatch ic a (cs, s) = []" using Grp.IH[of "(cs, s)"] by auto
      with Fail Pair show ?thesis by simp
    next
      case Unknown
      with Pair show ?thesis by simp
    qed
  qed
qed


lemma matchAt_greedy:
  assumes "greedy (ignoreCase re) (body re) ([], s) = Match (cs, r)"
    and "anchorEnd re \<Longrightarrow> r = []"
  shows "matchAt re s = Some ((0, take (length s - length r) s) # cs)"
proof -
  obtain more where "rmatch (ignoreCase re) (body re) ([], s) = (cs, r) # more"
    using greedy_rmatch[of "ignoreCase re" "body re" "([], s)" "(cs, r)"] assms(1) by auto
  then show ?thesis
    using assms(2) by (simp add: matchAt_def)
qed

lemma matchAt_fail:
  assumes "greedy (ignoreCase re) (body re) ([], s) = Fail"
  shows "matchAt re s = None"
  using greedy_rmatch[of "ignoreCase re" "body re" "([], s)"] assms
  by (simp add: matchAt_def)

lemma dropWhile_all: "list_all P xs \<Longrightarrow> dropWhile P (xs @ ys) = dropWhile P ys"
  by (induction xs) auto

lemma takeWhile_all: "list_all P xs \<Longrightarrow> takeWhile P (xs @ ys) = xs @ takeWhile P ys"
  by (induction xs) auto

lemma dropWhile_all_nil: "list_all P xs \<Longrightarrow> dropWhile P xs = []"
  by (induction xs) auto

lemma takeWhile_all_id: "list_all P xs \<Longrightarrow> takeWhile P xs = xs"
  by (induction xs) auto

lemma classMember_eta:
  "classMember ic Digit = isDigit" "classMember ic Space = isSpace"
  by (auto simp: fun_eq_iff)

lemma canonicalize_False: "canonicalize False c = c"
  by (simp add: canonicalize_def)

lemmas run_simps = dropWhile_all dropWhile_all_nil takeWhile_all takeWhile_all_id classMember_eta
  canonicalize_False

lemma digit_facts:
  "isDigit c \<Longrightarrow> \<not> isSpace c"
  "isDigit c \<Longrightarrow> c \<noteq> 45" "isDigit c \<Longrightarrow> c \<noteq> 43" "isDigit c \<Longrightarrow> c \<noteq> 46"
  "isDigit c \<Longrightarrow> c \<noteq> 44" "isDigit c \<Longrightarrow> c \<noteq> 176" "isDigit c \<Longrightarrow> c \<noteq> 39"
  "isDigit c \<Longrightarrow> c \<noteq> 34"
  by (auto simp: isDigit_def isSpace_def)

lemma const_facts:
  "\<not> isDigit 44" "\<not> isDigit 46" "\<not> isDigit 45" "\<not> isSpace 45" "\<not> isSpace 44" "\<not> isSpace 46"
  "\<not> isDigit 39" "\<not> isDigit 34" "\<not> isSpace 39" "\<not> isSpace 34" "\<not> isDigit 176" "\<not> isSpace 176"
  by (simp_all add: isDigit_def isSpace_def)

subsection \<open>Rounding to doubles\<close>

text \<open>
  The exponent found by \<open>exponentOf\<close> brackets its argument between two powers of 2
  (outside the subnormal and the overflow range), so \<open>magnitude\<close> moves it by at most
  half the spacing, keeps multiples of the spacing, and keeps the order with respect
  to them.
\<close>

lemma pow2_powr: "pow2 e = 2 powr (of_int e)"
proof (cases "0 \<le> e")
  case True
  then obtain n where e: "e = int n"
    using nonneg_int_cases by blast
  show ?thesis
    unfolding e by (simp add: pow2_def powr_realpow)
next
  case False
  then obtain n where e: "e = - int n" and n: "0 < n"
    by (metis linorder_not_le neg_int_cases)
  have "(2::real) powr (- real n) = 1 / 2 ^ n"
    by (simp add: powr_minus powr_realpow divide_inverse)
  then show ?thesis
    unfolding e using n by (simp add: pow2_def)
qed

lemma pow2_pos [simp]: "0 < pow2 e"
  by (simp add: pow2_powr)

lemma pow2_nonneg [simp]: "0 \<le> pow2 e"
  using pow2_pos[of e] by (simp only: less_imp_le)

lemma pow2_neq0 [simp]: "pow2 e \<noteq> 0"
  by (simp add: pow2_powr)

lemma pow2_add: "pow2 (a + b) = pow2 a * pow2 b"
  by (simp add: pow2_powr powr_add)

lemma pow2_diff: "pow2 (a - b) = pow2 a / pow2 b"
  by (simp add: pow2_powr powr_diff)

lemma pow2_le_iff [simp]: "pow2 a \<le> pow2 b \<longleftrightarrow> a \<le> b"
  by (simp add: pow2_powr)

lemma pow2_less_iff [simp]: "pow2 a < pow2 b \<longleftrightarrow> a < b"
  by (simp add: pow2_powr)

lemma pow2_nat: "pow2 (int n) = 2 ^ n"
  by (simp add: pow2_def)

lemma pow2_Suc: "pow2 (e + 1) = 2 * pow2 e"
  by (simp add: pow2_powr powr_add)

lemma pow2_neg: "pow2 (- int n) = 1 / 2 ^ n"
  by (simp add: pow2_def)

lemma halvings_le: "halvings k x \<le> k"
  by (induction k arbitrary: x) auto

lemma doublings_le: "doublings k x \<le> k"
  by (induction k arbitrary: x) auto

lemma halvings_bounds0:
  "1 \<le> x \<Longrightarrow> 2 ^ halvings k x \<le> x \<and> (x < 2 * 2 ^ halvings k x \<or> halvings k x = k)"
proof (induction k arbitrary: x)
  case 0
  then show ?case by simp
next
  case (Suc k)
  show ?case
  proof (cases "x < 2")
    case True
    with Suc.prems show ?thesis by simp
  next
    case False
    then have "1 \<le> x / 2" by simp
    from Suc.IH[OF this] False show ?thesis by auto
  qed
qed

lemma doublings_bounds0:
  "x < 1 \<Longrightarrow> x * 2 ^ doublings k x < 2 \<and> (1 \<le> x * 2 ^ doublings k x \<or> doublings k x = k)"
proof (induction k arbitrary: x)
  case 0
  then show ?case by simp
next
  case (Suc k)
  show ?case
  proof (cases "x * 2 < 1")
    case True
    from Suc.IH[OF this] Suc.prems show ?thesis by (auto simp: mult.assoc)
  next
    case False
    then have "doublings k (x * 2) = 0" by (cases k) auto
    with False Suc.prems show ?thesis by auto
  qed
qed

declare halvings.simps [simp del] doublings.simps [simp del]

lemma exponentOf_range: "- 1022 \<le> exponentOf a \<and> exponentOf a \<le> 1024"
  using halvings_le[of 1024 a] doublings_le[of 1022 a] by (auto simp: exponentOf_def)

lemma exponentOf_lower: "pow2 (exponentOf a) \<le> a \<or> exponentOf a = - 1022"
proof (cases "1 \<le> a")
  case True
  with halvings_bounds0[OF True, of 1024] show ?thesis
    by (simp add: exponentOf_def pow2_nat)
next
  case False
  then have lt: "a < 1" by simp
  let ?n = "doublings 1022 a"
  from doublings_bounds0[OF lt, of 1022]
  have "1 \<le> a * 2 ^ ?n \<or> ?n = 1022" by simp
  then show ?thesis
  proof
    assume "1 \<le> a * 2 ^ ?n"
    then have "1 / 2 ^ ?n \<le> a" by (simp add: field_simps)
    then show ?thesis using lt by (simp add: exponentOf_def pow2_neg)
  next
    assume "?n = 1022"
    with lt show ?thesis by (simp add: exponentOf_def)
  qed
qed

lemma exponentOf_upper: "a < pow2 (exponentOf a + 1) \<or> exponentOf a = 1024"
proof (cases "1 \<le> a")
  case True
  with halvings_bounds0[OF True, of 1024] show ?thesis
    by (auto simp: exponentOf_def pow2_Suc pow2_nat)
next
  case False
  then have lt: "a < 1" by simp
  let ?n = "doublings 1022 a"
  from doublings_bounds0[OF lt, of 1022]
  have "a * 2 ^ ?n < 2" by simp
  then have "a < 2 * (1 / 2 ^ ?n)" by (simp add: field_simps)
  then have "a < pow2 (- int ?n + 1)" by (simp only: pow2_Suc pow2_neg)
  then show ?thesis using lt by (simp add: exponentOf_def)
qed


lemma roundHalfEven_cases: "roundHalfEven y = \<lfloor>y\<rfloor> \<or> roundHalfEven y = \<lfloor>y\<rfloor> + 1"
  by (simp add: roundHalfEven_def Let_def)

lemma roundHalfEven_int [simp]: "roundHalfEven (of_int n) = n"
  by (simp add: roundHalfEven_def)

lemma roundHalfEven_near: "\<bar>of_int (roundHalfEven y) - y\<bar> \<le> 1 / 2"
proof -
  have "of_int \<lfloor>y\<rfloor> \<le> y" "y < of_int \<lfloor>y\<rfloor> + 1"
    by linarith+
  then show ?thesis
    by (auto simp: roundHalfEven_def Let_def)
qed

lemma roundHalfEven_le_int: "y \<le> of_int n \<Longrightarrow> roundHalfEven y \<le> n"
proof (cases "y = of_int n")
  case True
  then show ?thesis by simp
next
  case False
  assume "y \<le> of_int n"
  with False have "y < of_int n" by simp
  then have "\<lfloor>y\<rfloor> < n" by (simp add: floor_less_iff)
  with roundHalfEven_cases[of y] show ?thesis by auto
qed

lemma roundHalfEven_ge_int: "of_int n \<le> y \<Longrightarrow> n \<le> roundHalfEven y"
proof -
  assume "of_int n \<le> y"
  then have "n \<le> \<lfloor>y\<rfloor>" by (simp add: le_floor_iff)
  with roundHalfEven_cases[of y] show ?thesis by auto
qed

lemma roundHalfEven_le_even:
  assumes "even n"
  shows "roundHalfEven y \<le> n \<longleftrightarrow> y \<le> of_int n + 1 / 2"
proof
  assume "roundHalfEven y \<le> n"
  then have "of_int (roundHalfEven y) \<le> (of_int n :: real)" by simp
  with roundHalfEven_near[of y] show "y \<le> of_int n + 1 / 2" by linarith
next
  assume le: "y \<le> of_int n + 1 / 2"
  show "roundHalfEven y \<le> n"
  proof (cases "y \<le> of_int n")
    case True
    then show ?thesis by (rule roundHalfEven_le_int)
  next
    case False
    then have "of_int n \<le> y" "y < of_int n + 1" using le by simp_all
    then have fl: "\<lfloor>y\<rfloor> = n" by (simp add: floor_unique)
    show ?thesis
      using le assms by (simp add: roundHalfEven_def Let_def fl)
  qed
qed

lemma exponentOf_le: "a < pow2 (k + 1) \<Longrightarrow> - 1022 \<le> k \<Longrightarrow> exponentOf a \<le> k"
proof -
  assume a: "a < pow2 (k + 1)" and k: "- 1022 \<le> k"
  from exponentOf_lower[of a] show ?thesis
  proof
    assume "pow2 (exponentOf a) \<le> a"
    then have "pow2 (exponentOf a) < pow2 (k + 1)" using a by (rule le_less_trans)
    then show ?thesis by simp
  next
    assume "exponentOf a = - 1022"
    with k show ?thesis by simp
  qed
qed

lemma exponentOf_ge: "pow2 k \<le> a \<Longrightarrow> k \<le> 1024 \<Longrightarrow> k \<le> exponentOf a"
proof -
  assume a: "pow2 k \<le> a" and k: "k \<le> 1024"
  from exponentOf_upper[of a] show ?thesis
  proof
    assume "a < pow2 (exponentOf a + 1)"
    with a have "pow2 k < pow2 (exponentOf a + 1)" by (rule le_less_trans)
    then show ?thesis by simp
  next
    assume "exponentOf a = 1024"
    with k show ?thesis by simp
  qed
qed

lemma exponentOf_eq:
  "pow2 e \<le> a \<Longrightarrow> a < pow2 (e + 1) \<Longrightarrow> - 1022 \<le> e \<Longrightarrow> e \<le> 1023 \<Longrightarrow> exponentOf a = e"
  using exponentOf_le[of a e] exponentOf_ge[of e a] by simp

lemma magnitude_exact:
  assumes "a / pow2 (exponentOf a - 52) = of_int n"
  shows "magnitude a = a"
proof -
  have "magnitude a = (a / pow2 (exponentOf a - 52)) * pow2 (exponentOf a - 52)"
    unfolding magnitude_def Let_def by (simp add: assms)
  then show ?thesis by simp
qed

lemma magnitude_near: "\<bar>magnitude a - a\<bar> \<le> pow2 (exponentOf a - 53)"
proof -
  let ?q = "pow2 (exponentOf a - 52)"
  have "magnitude a - a = (of_int (roundHalfEven (a / ?q)) - a / ?q) * ?q"
    by (simp add: magnitude_def Let_def algebra_simps)
  then have "\<bar>magnitude a - a\<bar> = \<bar>of_int (roundHalfEven (a / ?q)) - a / ?q\<bar> * ?q"
    by (simp add: abs_mult)
  also have "\<dots> \<le> 1 / 2 * ?q"
    by (rule mult_right_mono[OF roundHalfEven_near]) simp
  also have "\<dots> = pow2 (exponentOf a - 53)"
    using pow2_Suc[of "exponentOf a - 53"] by simp
  finally show ?thesis .
qed

lemma magnitude_upper:
  assumes "a < pow2 (exponentOf a + 1)"
  shows "magnitude a \<le> pow2 (exponentOf a + 1)"
proof -
  let ?q = "pow2 (exponentOf a - 52)"
  have "pow2 (exponentOf a + 1) = pow2 (53 + (exponentOf a - 52))"
    by (rule arg_cong[where f = pow2]) simp
  also have "\<dots> = pow2 53 * ?q" by (rule pow2_add)
  also have "pow2 53 = 2 ^ 53" by (simp add: pow2_def)
  finally have split: "pow2 (exponentOf a + 1) = 2 ^ 53 * ?q" .
  have "a / ?q \<le> 2 ^ 53"
    using assms unfolding split by (simp add: field_simps)
  then have "a / ?q \<le> of_int (2 ^ 53)" by simp
  then have "roundHalfEven (a / ?q) \<le> 2 ^ 53" by (rule roundHalfEven_le_int)
  then have "(of_int (roundHalfEven (a / ?q)) :: real) \<le> 2 ^ 53"
    by (metis of_int_le_iff of_int_numeral of_int_power)
  then have "of_int (roundHalfEven (a / ?q)) * ?q \<le> 2 ^ 53 * ?q"
    by (rule mult_right_mono) simp
  then show ?thesis
    unfolding split by (simp add: magnitude_def Let_def)
qed

lemma magnitude_lower:
  assumes "pow2 (exponentOf a) \<le> a"
  shows "pow2 (exponentOf a) \<le> magnitude a"
proof -
  let ?q = "pow2 (exponentOf a - 52)"
  have "pow2 (exponentOf a) = pow2 (52 + (exponentOf a - 52))"
    by (rule arg_cong[where f = pow2]) simp
  also have "\<dots> = pow2 52 * ?q" by (rule pow2_add)
  also have "pow2 52 = 2 ^ 52" by (simp add: pow2_def)
  finally have split: "pow2 (exponentOf a) = 2 ^ 52 * ?q" .
  have "2 ^ 52 \<le> a / ?q"
    using assms unfolding split by (simp add: field_simps)
  then have "of_int (2 ^ 52) \<le> a / ?q" by simp
  then have "2 ^ 52 \<le> roundHalfEven (a / ?q)" by (rule roundHalfEven_ge_int)
  then have "2 ^ 52 \<le> (of_int (roundHalfEven (a / ?q)) :: real)"
    by (metis of_int_le_iff of_int_numeral of_int_power)
  then have "2 ^ 52 * ?q \<le> of_int (roundHalfEven (a / ?q)) * ?q"
    by (rule mult_right_mono) simp
  then show ?thesis
    unfolding split by (simp add: magnitude_def Let_def)
qed

lemma magnitude_nonneg: "0 \<le> a \<Longrightarrow> 0 \<le> magnitude a"
proof -
  assume "0 \<le> a"
  then have "of_int 0 \<le> a / pow2 (exponentOf a - 52)" by simp
  then have "0 \<le> roundHalfEven (a / pow2 (exponentOf a - 52))"
    by (rule roundHalfEven_ge_int)
  then show ?thesis by (simp add: magnitude_def Let_def)
qed


lemma pow2_1024: "pow2 1024 = 2 ^ 1024"
  by (simp add: pow2_def)

lemma toNumber_exact:
  assumes "\<bar>x\<bar> / pow2 (exponentOf \<bar>x\<bar> - 52) = of_int n" and "\<bar>x\<bar> < 2 ^ 1024"
  shows "toNumber x = Num x"
proof -
  have "magnitude \<bar>x\<bar> = \<bar>x\<bar>"
    using assms(1) by (rule magnitude_exact)
  with assms(2) show ?thesis
    by (simp add: toNumber_def Let_def)
qed

lemma toNumber_dyadic:
  assumes "\<bar>m\<bar> < 2 ^ 53" and "- 1074 \<le> j" and "j \<le> 970"
  shows "toNumber (of_int m * pow2 j) = Num (of_int m * pow2 j)"
proof -
  let ?x = "of_int m * pow2 j :: real"
  let ?e = "exponentOf \<bar>?x\<bar>"
  have a: "\<bar>?x\<bar> = of_int \<bar>m\<bar> * pow2 j"
    by (simp add: abs_mult)
  have "(of_int \<bar>m\<bar> :: real) < of_int (2 ^ 53)"
    using assms(1) by (simp only: of_int_less_iff)
  then have "(of_int \<bar>m\<bar> :: real) < 2 ^ 53" by simp
  then have "of_int \<bar>m\<bar> * pow2 j < 2 ^ 53 * pow2 j"
    by (rule mult_strict_right_mono) simp
  also have "(2 ^ 53 :: real) = pow2 53" by (simp add: pow2_def)
  also have "pow2 53 * pow2 j = pow2 (j + 52 + 1)"
    unfolding pow2_add[symmetric] by (rule arg_cong[where f = pow2]) simp
  finally have lt: "\<bar>?x\<bar> < pow2 (j + 52 + 1)"
    unfolding a .
  then have e: "?e \<le> j + 52"
    using assms(2) by (intro exponentOf_le) simp_all
  have "pow2 j = pow2 ((j + 52 - ?e) + (?e - 52))"
    by (rule arg_cong[where f = pow2]) simp
  also have "\<dots> = pow2 (j + 52 - ?e) * pow2 (?e - 52)"
    by (rule pow2_add)
  also have "pow2 (j + 52 - ?e) = 2 ^ nat (j + 52 - ?e)"
    using e by (simp add: pow2_def)
  finally have "\<bar>?x\<bar> = of_int (\<bar>m\<bar> * 2 ^ nat (j + 52 - ?e)) * pow2 (?e - 52)"
    unfolding a by (simp only: of_int_mult of_int_power of_int_numeral mult.assoc)
  then have "\<bar>?x\<bar> / pow2 (?e - 52)
             = of_int (\<bar>m\<bar> * 2 ^ nat (j + 52 - ?e)) * pow2 (?e - 52) / pow2 (?e - 52)"
    by (simp only:)
  then have "\<bar>?x\<bar> / pow2 (?e - 52) = of_int (\<bar>m\<bar> * 2 ^ nat (j + 52 - ?e))"
    by (simp only: nonzero_mult_div_cancel_right[OF pow2_neq0])
  moreover have "\<bar>?x\<bar> < 2 ^ 1024"
  proof -
    have "pow2 (j + 52 + 1) \<le> pow2 1024"
      using assms(3) by simp
    with lt show ?thesis by (simp add: pow2_1024)
  qed
  ultimately show ?thesis by (rule toNumber_exact)
qed

lemma toNumber_int: "\<bar>m\<bar> < 2 ^ 53 \<Longrightarrow> toNumber (of_int m) = Num (of_int m)"
  using toNumber_dyadic[of m 0] by (simp add: pow2_def)

lemma toNumber_fraction:
  "\<bar>m\<bar> < 2 ^ 53 \<Longrightarrow> n \<le> 1074 \<Longrightarrow> toNumber (of_int m / 2 ^ n) = Num (of_int m / 2 ^ n)"
  using toNumber_dyadic[of m "- int n"] by (simp add: pow2_neg)

lemma toNumber_near:
  assumes "\<bar>x\<bar> < pow2 (k + 1)" and "- 1022 \<le> k" and "k \<le> 1022"
  shows "\<exists>r. toNumber x = Num r \<and> \<bar>r - x\<bar> \<le> pow2 (k - 53) \<and> \<bar>r\<bar> \<le> pow2 (k + 1)"
proof -
  let ?a = "\<bar>x\<bar>"
  let ?e = "exponentOf ?a"
  let ?y = "magnitude ?a"
  have e: "?e \<le> k"
    using assms(1,2) by (rule exponentOf_le)
  with assms(3) have "?e \<noteq> 1024" by simp
  with exponentOf_upper[of ?a] have "?a < pow2 (?e + 1)" by simp
  then have "?y \<le> pow2 (?e + 1)" by (rule magnitude_upper)
  also have "\<dots> \<le> pow2 (k + 1)" using e by simp
  finally have up: "?y \<le> pow2 (k + 1)" .
  have "pow2 (k + 1) < pow2 1024" using assms(3) by simp
  with up have fin: "\<not> 2 ^ 1024 \<le> ?y" by (simp add: pow2_1024)
  have "\<bar>?y - ?a\<bar> \<le> pow2 (?e - 53)" by (rule magnitude_near)
  also have "\<dots> \<le> pow2 (k - 53)" using e by simp
  finally have near: "\<bar>?y - ?a\<bar> \<le> pow2 (k - 53)" .
  have nn: "0 \<le> ?y" by (rule magnitude_nonneg) simp
  show ?thesis
  proof (cases "0 \<le> x")
    case True
    with fin have "toNumber x = Num ?y" by (simp add: toNumber_def Let_def)
    moreover have "\<bar>?y - x\<bar> \<le> pow2 (k - 53)" using near True by simp
    moreover have "\<bar>?y\<bar> \<le> pow2 (k + 1)" using up nn by simp
    ultimately show ?thesis by blast
  next
    case False
    with fin have "toNumber x = Num (- ?y)" by (simp add: toNumber_def Let_def)
    moreover have "\<bar>- ?y - x\<bar> \<le> pow2 (k - 53)" using near False by simp
    moreover have "\<bar>- ?y\<bar> \<le> pow2 (k + 1)" using up nn by simp
    ultimately show ?thesis by blast
  qed
qed

lemma magnitude_le_iff:
  assumes "- 1022 \<le> k" and "k \<le> 1023" and "even N" and "2 ^ 52 \<le> N" and "N < 2 ^ 53"
  shows "magnitude a \<le> of_int N * pow2 (k - 52)
         \<longleftrightarrow> a \<le> of_int N * pow2 (k - 52) + pow2 (k - 53)"
proof -
  let ?q = "pow2 (k - 52)"
  let ?b = "of_int N * ?q :: real"
  let ?e = "exponentOf a"
  have half: "pow2 (k - 53) = ?q / 2"
    using pow2_Suc[of "k - 53"] by simp
  have "pow2 k = pow2 (52 + (k - 52))"
    by (rule arg_cong[where f = pow2]) simp
  also have "\<dots> = pow2 52 * ?q" by (rule pow2_add)
  also have "pow2 52 = 2 ^ 52" by (simp add: pow2_def)
  finally have pk: "pow2 k = 2 ^ 52 * ?q" .
  have pk1: "pow2 (k + 1) = 2 ^ 53 * ?q"
    unfolding pow2_Suc pk by simp
  have "(of_int (2 ^ 52) :: real) \<le> of_int N"
    using assms(4) by (simp only: of_int_le_iff)
  then have "2 ^ 52 * ?q \<le> ?b"
    by (intro mult_right_mono) simp_all
  then have lo: "pow2 k \<le> ?b" unfolding pk .
  have "N + 2 \<le> 2 ^ 53"
  proof -
    from assms(3) obtain c where c: "N = 2 * c" by (rule evenE)
    with assms(5) have "c < 2 ^ 52" by simp
    then have "c + 1 \<le> 2 ^ 52" by simp
    with c show ?thesis by simp
  qed
  then have "(of_int (N + 2) :: real) \<le> of_int (2 ^ 53)"
    by (simp only: of_int_le_iff)
  then have "(of_int N + 2) * ?q \<le> 2 ^ 53 * ?q"
    by (intro mult_right_mono) simp_all
  then have hi: "?b + 2 * ?q \<le> pow2 (k + 1)"
    unfolding pk1 by (simp add: algebra_simps)
  have qpos: "0 < ?q" by simp
  consider "?e < k" | "?e = k" | "k < ?e" by linarith
  then show ?thesis
  proof cases
    case 1
    with assms(2) have "?e \<noteq> 1024" by simp
    with exponentOf_upper[of a] have a: "a < pow2 (?e + 1)" by simp
    have le: "pow2 (?e + 1) \<le> pow2 k" using 1 by simp
    from a have "magnitude a \<le> pow2 (?e + 1)" by (rule magnitude_upper)
    with le lo have "magnitude a \<le> ?b" by linarith
    moreover have "a \<le> ?b + pow2 (k - 53)"
      using a le lo qpos unfolding half by linarith
    ultimately show ?thesis by simp
  next
    case 2
    have "magnitude a \<le> ?b \<longleftrightarrow> of_int (roundHalfEven (a / ?q)) * ?q \<le> of_int N * ?q"
      by (simp add: magnitude_def Let_def 2)
    also have "\<dots> \<longleftrightarrow> (of_int (roundHalfEven (a / ?q)) :: real) \<le> of_int N"
      using qpos by (simp only: mult_le_cancel_right_pos)
    also have "\<dots> \<longleftrightarrow> roundHalfEven (a / ?q) \<le> N"
      by (simp only: of_int_le_iff)
    also have "\<dots> \<longleftrightarrow> a / ?q \<le> of_int N + 1 / 2"
      using assms(3) by (rule roundHalfEven_le_even)
    also have "\<dots> \<longleftrightarrow> a \<le> ?b + pow2 (k - 53)"
      unfolding half using qpos by (simp add: field_simps)
    finally show ?thesis .
  next
    case 3
    with assms(1) have "?e \<noteq> - 1022" by simp
    with exponentOf_lower[of a] have a: "pow2 ?e \<le> a" by simp
    have le: "pow2 (k + 1) \<le> pow2 ?e" using 3 by simp
    from a have "pow2 ?e \<le> magnitude a" by (rule magnitude_lower)
    with le hi qpos have "\<not> magnitude a \<le> ?b" by linarith
    moreover have "\<not> a \<le> ?b + pow2 (k - 53)"
      using a le hi qpos unfolding half by linarith
    ultimately show ?thesis by simp
  qed
qed

lemma toNumber_within:
  assumes "- 1022 \<le> k" and "k \<le> 1023" and "even N" and "2 ^ 52 \<le> N" and "N < 2 ^ 53"
  shows "(\<exists>r. toNumber x = Num r \<and> \<bar>r\<bar> \<le> of_int N * pow2 (k - 52))
         \<longleftrightarrow> \<bar>x\<bar> \<le> of_int N * pow2 (k - 52) + pow2 (k - 53)"
proof -
  let ?y = "magnitude \<bar>x\<bar>"
  let ?b = "of_int N * pow2 (k - 52) :: real"
  have iff: "?y \<le> ?b \<longleftrightarrow> \<bar>x\<bar> \<le> ?b + pow2 (k - 53)"
    using assms by (rule magnitude_le_iff)
  have nn: "0 \<le> ?y" by (rule magnitude_nonneg) simp
  have "(of_int N :: real) < of_int (2 ^ 53)"
    using assms(5) by (simp only: of_int_less_iff)
  then have "?b < of_int (2 ^ 53) * pow2 (k - 52)"
    by (intro mult_strict_right_mono) simp_all
  also have "(of_int (2 ^ 53) :: real) = pow2 53" by (simp add: pow2_def)
  also have "pow2 53 * pow2 (k - 52) = pow2 (k + 1)"
    unfolding pow2_add[symmetric] by (rule arg_cong[where f = pow2]) simp
  also have "\<dots> \<le> pow2 1024" using assms(2) by simp
  finally have b: "?b < 2 ^ 1024" by (simp add: pow2_1024)
  show ?thesis
  proof (cases "2 ^ 1024 \<le> ?y")
    case True
    then have "\<not> (\<exists>r. toNumber x = Num r \<and> \<bar>r\<bar> \<le> ?b)"
      by (simp add: toNumber_def Let_def)
    moreover from True b have "\<not> ?y \<le> ?b" by linarith
    ultimately show ?thesis using iff by blast
  next
    case False
    then have "toNumber x = Num (if 0 \<le> x then ?y else - ?y)"
      by (simp add: toNumber_def Let_def)
    then have "(\<exists>r. toNumber x = Num r \<and> \<bar>r\<bar> \<le> ?b) \<longleftrightarrow> ?y \<le> ?b"
      using nn by auto
    with iff show ?thesis by simp
  qed
qed

lemma toNumber_within_90:
  "(\<exists>r. toNumber x = Num r \<and> - 90 \<le> r \<and> r \<le> 90) \<longleftrightarrow> \<bar>x\<bar> \<le> 90 + 1 / 2 ^ 47"
proof -
  have main: "(\<exists>r. toNumber x = Num r \<and> \<bar>r\<bar> \<le> of_int (90 * 2 ^ 46) * pow2 (6 - 52))
        \<longleftrightarrow> \<bar>x\<bar> \<le> of_int (90 * 2 ^ 46) * pow2 (6 - 52) + pow2 (6 - 53)"
    by (rule toNumber_within) simp_all
  have b: "of_int (90 * 2 ^ 46) * pow2 (6 - 52) = (90::real)"
    by (simp add: pow2_def)
  have h: "pow2 (6 - 53) = 1 / 2 ^ 47"
    by (simp add: pow2_def)
  have ab: "\<And>r::real. \<bar>r\<bar> \<le> 90 \<longleftrightarrow> - 90 \<le> r \<and> r \<le> 90"
    by auto
  show ?thesis
    using main unfolding b h ab .
qed

lemma toNumber_within_180:
  "(\<exists>r. toNumber x = Num r \<and> - 180 \<le> r \<and> r \<le> 180) \<longleftrightarrow> \<bar>x\<bar> \<le> 180 + 1 / 2 ^ 46"
proof -
  have main: "(\<exists>r. toNumber x = Num r \<and> \<bar>r\<bar> \<le> of_int (90 * 2 ^ 46) * pow2 (7 - 52))
        \<longleftrightarrow> \<bar>x\<bar> \<le> of_int (90 * 2 ^ 46) * pow2 (7 - 52) + pow2 (7 - 53)"
    by (rule toNumber_within) simp_all
  have b: "of_int (90 * 2 ^ 46) * pow2 (7 - 52) = (180::real)"
    by (simp add: pow2_def)
  have h: "pow2 (7 - 53) = 1 / 2 ^ 46"
    by (simp add: pow2_def)
  have ab: "\<And>r::real. \<bar>r\<bar> \<le> 180 \<longleftrightarrow> - 180 \<le> r \<and> r \<le> 180"
    by auto
  show ?thesis
    using main unfolding b h ab .
qed

text \<open>
  An overflowing magnitude is an infinity. The definitions evaluate on numerals, the
  fuel of \<open>halvings\<close> and \<open>doublings\<close> being counted down as a numeral.
\<close>

lemma toNumber_overflow:
  assumes "2 ^ 1024 \<le> x"
  shows "toNumber x = Infinity"
proof -
  have x: "pow2 1024 \<le> \<bar>x\<bar>" "0 < x"
    using assms by (simp_all add: pow2_1024)
  then have "1024 \<le> exponentOf \<bar>x\<bar>"
    by (intro exponentOf_ge) simp_all
  with exponentOf_range[of "\<bar>x\<bar>"] have e: "exponentOf \<bar>x\<bar> = 1024" by simp
  from x(1) have "pow2 (exponentOf \<bar>x\<bar>) \<le> magnitude \<bar>x\<bar>"
    unfolding e[symmetric] by (rule magnitude_lower)
  then have "2 ^ 1024 \<le> magnitude \<bar>x\<bar>"
    unfolding e by (simp add: pow2_1024)
  with x(2) show ?thesis
    by (simp add: toNumber_def Let_def)
qed

lemma halvings_numeral:
  "halvings (numeral k) x = (if x < 2 then 0 else Suc (halvings (pred_numeral k) (x / 2)))"
  by (simp add: numeral_eq_Suc halvings.simps)

lemma doublings_numeral:
  "doublings (numeral k) x = (if 1 \<le> x then 0 else Suc (doublings (pred_numeral k) (x * 2)))"
  by (simp add: numeral_eq_Suc doublings.simps)

lemmas number_simps =
  toNumber_def magnitude_def exponentOf_def halvings_numeral doublings_numeral pow2_def
  roundHalfEven_def Let_def

lemma toNumber_0 [simp]: "toNumber 0 = Num 0"
  using toNumber_int[of 0] by simp

lemma toNumber_1 [simp]: "toNumber 1 = Num 1"
  using toNumber_int[of 1] by simp

lemma toNumber_numeral: "numeral k < (2 ^ 53 :: int) \<Longrightarrow> toNumber (numeral k) = Num (numeral k)"
  using toNumber_int[of "numeral k"] by simp

lemma toNumber_neg_numeral:
  "numeral k < (2 ^ 53 :: int) \<Longrightarrow> toNumber (- numeral k) = Num (- numeral k)"
  using toNumber_int[of "- numeral k"] by simp

subsection \<open>Decimal pairs\<close>

lemma greedy_decimalNumber:
  assumes "decimalOk ip fr" and "rest = [] \<or> (\<exists>r. rest = 44 # r)"
  shows "greedy False decimalNumber (cs, decimalText neg ip fr @ rest) = Match (cs, rest)"
proof -
  obtain c ip' where ip: "ip = c # ip'" "isDigit c" "list_all isDigit ip'"
    using assms(1) by (cases ip) (auto simp: decimalOk_def digitRun_def)
  have r: "dropWhile isDigit rest = rest"
    using assms(2) by (auto simp: const_facts)
  show ?thesis
  proof (cases fr)
    case None
    then show ?thesis
      using ip r assms(2)
      by (cases neg)
         (auto simp: decimalNumber_def seqs_def decimalText_def run_simps
            const_facts digit_facts)
  next
    case (Some fp)
    then have "list_all isDigit fp"
      using assms(1) by (simp add: decimalOk_def)
    then show ?thesis
      using ip r Some
      by (cases neg)
         (auto simp: decimalNumber_def seqs_def decimalText_def run_simps
            const_facts digit_facts)
  qed
qed

lemma greedy_decimalNumber_comma:
  "decimalOk ip fr \<Longrightarrow>
   greedy False decimalNumber (cs, decimalText neg ip fr @ 44 # r) = Match (cs, 44 # r)"
  using greedy_decimalNumber[of ip fr "44 # r" cs neg] by simp

lemma greedy_decimalNumber_end:
  "decimalOk ip fr \<Longrightarrow> greedy False decimalNumber (cs, decimalText neg ip fr) = Match (cs, [])"
  using greedy_decimalNumber[of ip fr "[]" cs neg] by simp

lemma greedy_decimalPattern:
  assumes "decimalOk i1 f1" and "decimalOk i2 f2" and "list_all isSpace w"
  shows "greedy False (body decimalPattern)
           ([], decimalText n1 i1 f1 @ [44] @ w @ decimalText n2 i2 f2)
         = Match ([(2, decimalText n2 i2 f2), (1, decimalText n1 i1 f1)], [])"
proof -
  obtain c r where t2: "decimalText n2 i2 f2 = c # r" "\<not> isSpace c"
    using assms(2)
    by (cases i2; cases n2) (auto simp: decimalText_def decimalOk_def digitRun_def digit_facts const_facts)
  have w: "dropWhile isSpace (w @ decimalText n2 i2 f2) = decimalText n2 i2 f2"
    using assms(3) t2 by (simp add: run_simps)
  show ?thesis
    using assms(1,2)
    by (simp add: decimalPattern_def seqs_def greedy_decimalNumber_comma greedy_decimalNumber_end
        w run_simps)
qed

lemma source_decimalPattern: "stringIncludes (toString decimalPattern) (js ''NS'') = False"
  by (simp add: toString_def decimalPattern_def decimalNumber_def seqs_def js_def)

lemma splitSign_digit: "isDigit c \<Longrightarrow> splitSign (c # s) = (1, c # s)"
  by (simp add: splitSign_def digit_facts)

lemma splitSign_minus: "splitSign (45 # s) = (- 1, s)"
  by (simp add: splitSign_def const_facts)

lemma parseFloat_decimalText:
  assumes "decimalOk ip fr"
  shows "parseFloat (decimalText neg ip fr) = toNumber (decimalValue neg ip fr)"
proof -
  obtain c ip' where ip: "ip = c # ip'" "isDigit c" "list_all isDigit ip'"
    using assms by (cases ip) (auto simp: decimalOk_def digitRun_def)
  show ?thesis
  proof (cases fr)
    case None
    then show ?thesis
      using ip
      by (cases neg)
         (simp_all add: parseFloat_def decimalText_def decimalValue_def splitSign_digit
            splitSign_minus run_simps digitsValue_def)
  next
    case (Some fp)
    then have "list_all isDigit fp"
      using assms by (simp add: decimalOk_def)
    then show ?thesis
      using ip Some
      by (cases neg)
         (simp_all add: parseFloat_def decimalText_def decimalValue_def splitSign_digit
            splitSign_minus run_simps const_facts)
  qed
qed

text \<open>
  The model rounds as the engine does: the numeral \<open>9007199254740993\<close> lies half way
  between two doubles and goes to the even one.
\<close>

lemma parseFloat_rounds:
  "parseFloat (js ''9007199254740993'') = Num 9007199254740992"
  using parseFloat_decimalText[of "js ''9007199254740993''" None False]
  by (simp add: decimalOk_def digitRun_def decimalText_def decimalValue_def digitsValue_def js_def
      isDigit_def number_simps)

lemma digitsValue_zeros: "digitsValue (ds @ replicate n 48) = digitsValue ds * 10 ^ n"
proof (induction n)
  case 0
  then show ?case by simp
next
  case (Suc n)
  have "replicate (Suc n) (48::nat) = replicate n 48 @ [48]"
    by (simp add: replicate_append_same)
  then have "digitsValue (ds @ replicate (Suc n) 48) = 10 * digitsValue (ds @ replicate n 48)"
    by (simp add: digitsValue_def del: replicate.simps)
  with Suc show ?case by simp
qed

text \<open>A numeral of 310 digits is beyond the doubles: \<open>parseFloat\<close> returns an infinity.\<close>

lemma parseFloat_overflows: "parseFloat (49 # replicate 309 48) = Infinity"
proof -
  have ok: "decimalOk (49 # replicate 309 48) None"
    by (simp add: decimalOk_def digitRun_def isDigit_def list_all_iff)
  have "digitsValue ([49] @ replicate 309 48) = 10 ^ 309"
    unfolding digitsValue_zeros by (simp add: digitsValue_def)
  then have "decimalValue False (49 # replicate 309 48) None = 10 ^ 309"
    by (simp add: decimalValue_def)
  moreover have "(2::real) ^ 1024 \<le> 10 ^ 309"
    by simp
  ultimately have "toNumber (decimalValue False (49 # replicate 309 48) None) = Infinity"
    by (simp only: toNumber_overflow)
  with parseFloat_decimalText[OF ok, of False] show ?thesis
    by (simp add: decimalText_def)
qed

lemma parseCoordinates_decimal:
  assumes "decimalOk i1 f1" and "decimalOk i2 f2" and "list_all isSpace w"
  shows "parseCoordinates (decimalText n1 i1 f1 @ [44] @ w @ decimalText n2 i2 f2)
         = Some \<lparr>lat = Some (toNumber (decimalValue n1 i1 f1)),
                  lng = Some (toNumber (decimalValue n2 i2 f2))\<rparr>"
proof -
  let ?text = "decimalText n1 i1 f1 @ [44] @ w @ decimalText n2 i2 f2"
  have "matchAt decimalPattern ?text
        = Some ((0, take (length ?text - length ([]::jsstring)) ?text)
                # [(2, decimalText n2 i2 f2), (1, decimalText n1 i1 f1)])"
    using greedy_decimalPattern[OF assms, of n1 n2]
    by (intro matchAt_greedy) (simp_all add: decimalPattern_def)
  then have "jsMatch ?text decimalPattern
        = Some [(0, ?text), (2, decimalText n2 i2 f2), (1, decimalText n1 i1 f1)]"
    by (simp add: jsMatch_def decimalPattern_def)
  then show ?thesis
    by (simp add: parseCoordinates_def patterns_def source_decimalPattern capture_def
        parseFloat_decimalText[OF assms(1)] parseFloat_decimalText[OF assms(2)])
qed

text \<open>
  C1 (as the claim states it, refuted). White space before the comma is not
  tolerated: \<open>1 ,2\<close> is not recognized, while \<open>1, 2\<close> is.
\<close>

theorem space_before_comma_counterexample:
  "parseCoordinates (js ''1 ,2'') = None
   \<and> parseCoordinates (js ''1, 2'') = Some \<lparr>lat = Some (Num 1), lng = Some (Num 2)\<rparr>"
proof -
  have "parseCoordinates (js ''1 ,2'') = None"
    by (simp add: parseCoordinates_def patterns_def jsMatch_def matchAt_def decimalPattern_def
        dmsPairPattern_def decimalNumber_def seqs_def js_def isDigit_def isSpace_def
        canonicalize_def)
  moreover have "parseCoordinates (js ''1, 2'') = Some \<lparr>lat = Some (Num 1), lng = Some (Num 2)\<rparr>"
    using parseCoordinates_decimal[of "js ''1''" None "js ''2''" None "[32]" False False]
    by (simp add: decimalOk_def digitRun_def decimalText_def decimalValue_def digitsValue_def
        js_def isDigit_def isSpace_def toNumber_numeral)
  ultimately show ?thesis by simp
qed

text \<open>
  C1 (amended). For every decimal pair with latitude in [-90, 90] and longitude in
  [-180, 180], each number written as an optional minus sign, digits and optionally a
  point with further digits, with any white space after the comma (and none before
  it), \<open>parseCoordinates\<close> recognizes the text and returns the two numbers written,
  the first as latitude and the second as longitude, each as the double nearest to
  the numeral: a finite number within the same range, less than one part in
  \<open>2 ^ 47\<close> (latitude) or \<open>2 ^ 46\<close> (longitude) of a degree away from what is written,
  and equal to it whenever that is a double.
\<close>

theorem decimal_pair_parsed:
  assumes "decimalOk i1 f1" and "decimalOk i2 f2" and "list_all isSpace w"
    and "\<bar>decimalValue n1 i1 f1\<bar> \<le> 90" and "\<bar>decimalValue n2 i2 f2\<bar> \<le> 180"
  shows "\<exists>y x. parseCoordinates (decimalText n1 i1 f1 @ [44] @ w @ decimalText n2 i2 f2)
               = Some \<lparr>lat = Some (Num y), lng = Some (Num x)\<rparr>
             \<and> Num y = toNumber (decimalValue n1 i1 f1)
             \<and> Num x = toNumber (decimalValue n2 i2 f2)
             \<and> \<bar>y\<bar> \<le> 90 \<and> \<bar>x\<bar> \<le> 180
             \<and> \<bar>y - decimalValue n1 i1 f1\<bar> \<le> 1 / 2 ^ 47
             \<and> \<bar>x - decimalValue n2 i2 f2\<bar> \<le> 1 / 2 ^ 46"
proof -
  let ?v1 = "decimalValue n1 i1 f1" and ?v2 = "decimalValue n2 i2 f2"
  have "\<bar>?v1\<bar> < pow2 (6 + 1)" using assms(4) by (simp add: pow2_def)
  then obtain y where y: "toNumber ?v1 = Num y" "\<bar>y - ?v1\<bar> \<le> pow2 (6 - 53)"
    using toNumber_near[of ?v1 6] by auto
  have "\<bar>?v2\<bar> < pow2 (7 + 1)" using assms(5) by (simp add: pow2_def)
  then obtain x where x: "toNumber ?v2 = Num x" "\<bar>x - ?v2\<bar> \<le> pow2 (7 - 53)"
    using toNumber_near[of ?v2 7] by auto
  have "\<bar>?v1\<bar> \<le> 90 + 1 / 2 ^ 47" using assms(4) by simp
  then have yr: "\<bar>y\<bar> \<le> 90"
    using toNumber_within_90[of ?v1] y(1) by auto
  have "\<bar>?v2\<bar> \<le> 180 + 1 / 2 ^ 46" using assms(5) by simp
  then have xr: "\<bar>x\<bar> \<le> 180"
    using toNumber_within_180[of ?v2] x(1) by auto
  have "parseCoordinates (decimalText n1 i1 f1 @ [44] @ w @ decimalText n2 i2 f2)
        = Some \<lparr>lat = Some (Num y), lng = Some (Num x)\<rparr>"
    using parseCoordinates_decimal[OF assms(1-3), of n1 n2] y(1) x(1) by simp
  moreover have "\<bar>y - ?v1\<bar> \<le> 1 / 2 ^ 47" "\<bar>x - ?v2\<bar> \<le> 1 / 2 ^ 46"
    using y(2) x(2) by (simp_all add: pow2_def)
  ultimately show ?thesis
    using y(1) x(1) yr xr by auto
qed

theorem decimal_pair_parsed_witness:
  "parseCoordinates (js ''-30.5, 120.25'')
   = Some \<lparr>lat = Some (Num (- 30.5)), lng = Some (Num 120.25)\<rparr>"
proof -
  have v: "toNumber (- 30.5) = Num (- 30.5)" "toNumber 120.25 = Num 120.25"
    by (simp_all add: number_simps)
  have "decimalOk (js ''30'') (Some (js ''5''))" "decimalOk (js ''120'') (Some (js ''25''))"
    "list_all isSpace [32]"
    "\<bar>decimalValue True (js ''30'') (Some (js ''5''))\<bar> \<le> 90"
    "\<bar>decimalValue False (js ''120'') (Some (js ''25''))\<bar> \<le> 180"
    by (simp_all add: decimalOk_def digitRun_def decimalValue_def digitsValue_def js_def
        isDigit_def isSpace_def)
  from decimal_pair_parsed[OF this]
  obtain y x where
    "parseCoordinates (decimalText True (js ''30'') (Some (js ''5'')) @ [44] @ [32]
        @ decimalText False (js ''120'') (Some (js ''25'')))
     = Some \<lparr>lat = Some (Num y), lng = Some (Num x)\<rparr>"
    "Num y = toNumber (decimalValue True (js ''30'') (Some (js ''5'')))"
    "Num x = toNumber (decimalValue False (js ''120'') (Some (js ''25'')))"
    by blast
  then show ?thesis
    using v by (simp add: decimalText_def decimalValue_def digitsValue_def js_def)
qed

subsection \<open>Texts no pattern matches\<close>

text \<open>
  Whatever a pattern consumes is a word of its language, so a full match of the text
  puts the mandatory symbols of the pattern into the text.
\<close>

lemma star_sound: "s' \<in> set (star P s) \<Longrightarrow> \<exists>u. s = u @ s' \<and> list_all P u"
proof (induction s)
  case Nil
  then show ?case by simp
next
  case (Cons c s)
  show ?case
  proof (cases "s' = c # s")
    case True
    then show ?thesis by simp
  next
    case False
    with Cons.prems have "P c" and "s' \<in> set (star P s)"
      by (auto split: if_splits)
    with Cons.IH obtain u where "s = u @ s'" "list_all P u" by auto
    with \<open>P c\<close> have "c # s = (c # u) @ s'" "list_all P (c # u)" by simp_all
    then show ?thesis by blast
  qed
qed

lemma rmatch_lang:
  "(cs', s') \<in> set (rmatch ic r (cs, s)) \<Longrightarrow> \<exists>u \<in> lang ic r. s = u @ s'"
proof (induction r arbitrary: cs s cs' s')
  case Eps
  then show ?case by simp
next
  case (Chr x)
  then show ?case by (auto split: list.splits if_splits)
next
  case (Cls k)
  then show ?case by (auto split: list.splits if_splits)
next
  case (Seq a b)
  from Seq.prems obtain cs1 s1 where
    a: "(cs1, s1) \<in> set (rmatch ic a (cs, s))" and b: "(cs', s') \<in> set (rmatch ic b (cs1, s1))"
    by auto
  from Seq.IH(1)[OF a] obtain u where u: "u \<in> lang ic a" "s = u @ s1" by auto
  from Seq.IH(2)[OF b] obtain v where v: "v \<in> lang ic b" "s1 = v @ s'" by auto
  from u v have "u @ v \<in> lang ic (Seq a b)" "s = (u @ v) @ s'" by auto
  then show ?case by blast
next
  case (Alt a b)
  from Alt.prems have "(cs', s') \<in> set (rmatch ic a (cs, s)) \<or> (cs', s') \<in> set (rmatch ic b (cs, s))"
    by simp
  then show ?case
    using Alt.IH(1)[of cs' s' cs s] Alt.IH(2)[of cs' s' cs s] by auto
next
  case (Opt a)
  from Opt.prems have "(cs', s') \<in> set (rmatch ic a (cs, s)) \<or> s' = s"
    by auto
  then show ?case
    using Opt.IH[of cs' s' cs s] by auto
next
  case (Star k)
  then show ?case using star_sound[of s' "classMember ic k" s] by auto
next
  case (Plus k)
  show ?case
  proof (cases s)
    case Nil
    with Plus show ?thesis by simp
  next
    case (Cons c t)
    with Plus have c: "classMember ic k c" and "s' \<in> set (star (classMember ic k) t)"
      by (auto split: if_splits)
    then obtain u where "t = u @ s'" "list_all (classMember ic k) u"
      using star_sound by blast
    with c Cons have "c # u \<in> lang ic (Plus k)" "s = (c # u) @ s'" by simp_all
    then show ?thesis by blast
  qed
next
  case (Grp n a)
  from Grp.prems obtain cs1 where "(cs1, s') \<in> set (rmatch ic a (cs, s))"
    by auto
  then show ?case
    using Grp.IH[of cs1 s' cs s] by simp
qed

lemma lang_alphabet: "u \<in> lang ic r \<Longrightarrow> list_all (alphabet ic r) u"
  by (induction r arbitrary: u) (auto simp: list_all_iff)

lemma matchAt_lang:
  assumes "matchAt re inp = Some m" and "anchorEnd re"
  shows "inp \<in> lang (ignoreCase re) (body re)"
proof -
  from assms obtain cs r rest where
    f: "filter (\<lambda>(cs, r). r = []) (rmatch (ignoreCase re) (body re) ([], inp)) = (cs, r) # rest"
    by (auto simp: matchAt_def split: list.splits)
  then have "(cs, r) \<in> set (filter (\<lambda>(cs, r). r = []) (rmatch (ignoreCase re) (body re) ([], inp)))"
    by simp
  then have "r = []" and "(cs, r) \<in> set (rmatch (ignoreCase re) (body re) ([], inp))"
    by auto
  with rmatch_lang[of cs r "ignoreCase re" "body re" "[]" inp] show ?thesis by auto
qed

lemma lang_seqs_snoc:
  "u \<in> lang ic (seqs (rs @ [Cls k])) \<Longrightarrow> \<exists>v c. u = v @ [c] \<and> classMember ic k c"
proof (induction rs arbitrary: u)
  case Nil
  then show ?case by (auto simp: seqs_def)
next
  case (Cons r rs)
  from Cons.prems obtain x y where "u = x @ y" "y \<in> lang ic (seqs (rs @ [Cls k]))"
    by (auto simp: seqs_def)
  with Cons.IH[of y] obtain v c where "u = (x @ v) @ [c]" "classMember ic k c" by auto
  then show ?case by blast
qed

lemma decimal_match_no_degree:
  assumes "jsMatch inp decimalPattern = Some m"
  shows "176 \<notin> set inp"
proof -
  have "matchAt decimalPattern inp = Some m"
    using assms by (simp add: jsMatch_def decimalPattern_def)
  then have "inp \<in> lang False (body decimalPattern)"
    using matchAt_lang[of decimalPattern inp m] by (simp add: decimalPattern_def)
  then have "list_all (alphabet False (body decimalPattern)) inp"
    by (rule lang_alphabet)
  moreover have "\<not> alphabet False (body decimalPattern) 176"
    by (simp add: decimalPattern_def decimalNumber_def seqs_def canonicalize_def isDigit_def
        isSpace_def)
  ultimately show ?thesis
    by (auto simp: list_all_iff)
qed

lemma lang_seqs5:
  assumes "inp \<in> lang ic (seqs [Grp n1 a, b, c, d, Grp n2 e])"
  shows "\<exists>u1 u2 u5. inp = u1 @ u2 @ u5 \<and> u1 \<in> lang ic a \<and> u5 \<in> lang ic e"
proof -
  from assms obtain x1 x2 x3 x4 x5 where
    "inp = x1 @ x2 @ x3 @ x4 @ x5" "x1 \<in> lang ic a" "x5 \<in> lang ic e"
    by (auto simp: seqs_def)
  then have "inp = x1 @ (x2 @ x3 @ x4) @ x5 \<and> x1 \<in> lang ic a \<and> x5 \<in> lang ic e"
    by simp
  then show ?thesis by blast
qed

lemma dmsPair_match_letters:
  assumes "jsMatch inp dmsPairPattern = Some m"
  shows "inp \<noteq> [] \<and> last inp \<in> {69, 87} \<and> (78 \<in> set inp \<or> 83 \<in> set inp)"
proof -
  let ?tok = "\<lambda>g. [Opt (Chr 45), Plus Digit, Chr 176, Star Space, Plus Digit, Opt (Chr 39),
                   Star Space, Plus Digit, Opt (Grp g (Seq (Chr 46) (Plus Digit))),
                   Opt (Chr 34), Star Space]"
  have "matchAt dmsPairPattern inp = Some m"
    using assms by (simp add: jsMatch_def dmsPairPattern_def)
  then have "inp \<in> lang False (body dmsPairPattern)"
    using matchAt_lang[of dmsPairPattern inp m] by (simp add: dmsPairPattern_def)
  then have "inp \<in> lang False
      (seqs [Grp 1 (seqs (?tok 2 @ [Cls (OneOf [78, 83])])), Star Space, Opt (Chr 44), Star Space,
             Grp 3 (seqs (?tok 4 @ [Cls (OneOf [69, 87])]))])"
    by (simp add: dmsPairPattern_def)
  from lang_seqs5[OF this] obtain u1 u2 u5 where
    u: "inp = u1 @ u2 @ u5"
    and u1: "u1 \<in> lang False (seqs (?tok 2 @ [Cls (OneOf [78, 83])]))"
    and u5: "u5 \<in> lang False (seqs (?tok 4 @ [Cls (OneOf [69, 87])]))"
    by blast
  from lang_seqs_snoc[OF u1] obtain v1 c1 where c1: "u1 = v1 @ [c1]" "c1 = 78 \<or> c1 = 83"
    by (auto simp: canonicalize_def)
  from lang_seqs_snoc[OF u5] obtain v5 c5 where c5: "u5 = v5 @ [c5]" "c5 = 69 \<or> c5 = 87"
    by (auto simp: canonicalize_def)
  from u c1 c5 show ?thesis
    by auto
qed

text \<open>
  C3. A text that neither pattern matches is not recognized: \<open>parseCoordinates\<close>
  returns \<open>null\<close>. In particular every text with a degree sign in which the second
  token does not end in \<open>E\<close> or \<open>W\<close>, or in which no \<open>N\<close> or \<open>S\<close> closes the first
  token, is not recognized: no hemisphere is assumed for a token that has none.
\<close>

theorem unmatched_text_not_recognized:
  "(jsMatch inp decimalPattern = None \<and> jsMatch inp dmsPairPattern = None
      \<longrightarrow> parseCoordinates inp = None)
   \<and> (176 \<in> set inp \<and> (last inp \<notin> {69, 87} \<or> (78 \<notin> set inp \<and> 83 \<notin> set inp))
      \<longrightarrow> parseCoordinates inp = None)"
proof -
  have a: "jsMatch inp decimalPattern = None \<Longrightarrow> jsMatch inp dmsPairPattern = None
      \<Longrightarrow> parseCoordinates inp = None"
    by (simp add: parseCoordinates_def patterns_def)
  have "jsMatch inp decimalPattern = None"
    if "176 \<in> set inp" 
    using that decimal_match_no_degree[of inp] by (cases "jsMatch inp decimalPattern") auto
  moreover have "jsMatch inp dmsPairPattern = None"
    if "last inp \<notin> {69, 87} \<or> (78 \<notin> set inp \<and> 83 \<notin> set inp)"
    using that dmsPair_match_letters[of inp] by (cases "jsMatch inp dmsPairPattern") auto
  ultimately show ?thesis
    using a by blast
qed

theorem unmatched_text_not_recognized_witness:
  "jsMatch (js ''not a coordinate'') decimalPattern = None
   \<and> jsMatch (js ''not a coordinate'') dmsPairPattern = None
   \<and> parseCoordinates (js ''not a coordinate'') = None
   \<and> 176 \<in> set (js ''30'' @ [176] @ js ''21 20,120'' @ [176] @ js ''1 2E'')
   \<and> parseCoordinates (js ''30'' @ [176] @ js ''21 20,120'' @ [176] @ js ''1 2E'') = None
   \<and> parseCoordinates (js ''30'' @ [176] @ js ''21 20N,120'' @ [176] @ js ''1 2'') = None"
proof -
  have n: "jsMatch (js ''not a coordinate'') decimalPattern = None
           \<and> jsMatch (js ''not a coordinate'') dmsPairPattern = None"
    by (simp add: jsMatch_def matchAt_def decimalPattern_def dmsPairPattern_def decimalNumber_def
        seqs_def js_def isDigit_def isSpace_def canonicalize_def)
  show ?thesis
    using n unmatched_text_not_recognized[of "js ''not a coordinate''"]
      unmatched_text_not_recognized[of "js ''30'' @ [176] @ js ''21 20,120'' @ [176] @ js ''1 2E''"]
      unmatched_text_not_recognized[of "js ''30'' @ [176] @ js ''21 20N,120'' @ [176] @ js ''1 2''"]
    by (simp add: js_def)
qed

subsection \<open>DMS tokens\<close>

text \<open>
  A DMS token is read stage by stage; each stage is a run of digits or of white space
  ended by the first code unit of the next part.
\<close>

lemma heads_append: "heads P (xs @ ys) = (if xs = [] then heads P ys else heads P xs)"
  by (cases xs) auto

lemma heads_all: "list_all Q xs \<Longrightarrow> (\<And>c. Q c \<Longrightarrow> \<not> P c) \<Longrightarrow> \<not> heads P xs"
  by (cases xs) auto

lemma dropWhile_heads: "\<not> heads P s \<Longrightarrow> dropWhile P s = s"
  by (cases s) auto

lemma greedy_plus_run:
  assumes "digitRun x" and "\<not> heads isDigit rest"
  shows "greedy ic (Plus Digit) (cs, x @ rest) = Match (cs, rest)"
proof -
  obtain c x' where "x = c # x'" "isDigit c" "list_all isDigit x'"
    using assms(1) by (cases x) (auto simp: digitRun_def)
  then show ?thesis
    using assms(2) by (simp add: run_simps dropWhile_heads)
qed

lemma greedy_plus_fail: "\<not> heads isDigit s \<Longrightarrow> greedy ic (Plus Digit) (cs, s) = Fail"
  by (cases s) auto

lemma greedy_star_run:
  assumes "list_all isSpace w" and "\<not> heads isSpace rest"
  shows "greedy ic (Star Space) (cs, w @ rest) = Match (cs, rest)"
  using assms by (simp add: run_simps dropWhile_heads)

lemma greedy_star_none: "\<not> heads isSpace s \<Longrightarrow> greedy ic (Star Space) (cs, s) = Match (cs, s)"
  by (simp add: run_simps dropWhile_heads)


lemma heads_digit_space: "list_all isDigit x \<Longrightarrow> heads isSpace x = False"
  by (cases x) (auto simp: digit_facts)

lemma heads_space_digit: "list_all isSpace x \<Longrightarrow> heads isDigit x = False"
  using digit_facts(1) by (cases x) auto

lemma digitRun_nonempty: "digitRun x \<Longrightarrow> (x = []) = False"
  by (simp add: digitRun_def)

lemma digitRun_all: "digitRun x \<Longrightarrow> list_all isDigit x"
  by (simp add: digitRun_def)

lemma dropWhile_space_digits: "digitRun x \<Longrightarrow> dropWhile isSpace (x @ r) = x @ r"
  by (cases x) (auto simp: digitRun_def digit_facts)

lemmas stage_simps = greedy_plus_run greedy_plus_fail run_simps dropWhile_space_digits
  heads_append heads_digit_space heads_space_digit digitRun_nonempty digitRun_all
  const_facts digit_facts capture_def

lemma hemi_facts:
  assumes "upperUnit h \<in> {78, 83, 69, 87}"
  shows "\<not> isDigit h" "\<not> isSpace h" "h \<noteq> 39" "h \<noteq> 34" "h \<noteq> 46" "h \<noteq> 176"
    "classMember True (OneOf [78, 83]) h \<or> classMember True (OneOf [69, 87]) h"
  using assms
  by (auto simp: upperUnit_def isDigit_def isSpace_def canonicalize_def split: if_splits)

lemma canon_symbol:
  "(canonicalize ic c = canonicalize ic 34) = (c = 34)"
  "(canonicalize ic c = canonicalize ic 39) = (c = 39)"
  "(canonicalize ic c = canonicalize ic 46) = (c = 46)"
  "(canonicalize ic c = canonicalize ic 176) = (c = 176)"
  by (auto simp: canonicalize_def upperUnit_def)

lemma space_facts:
  "isSpace c \<Longrightarrow> isDigit c = False"
  "isSpace c \<Longrightarrow> c \<noteq> 34" "isSpace c \<Longrightarrow> c \<noteq> 39" "isSpace c \<Longrightarrow> c \<noteq> 46"
  "isSpace c \<Longrightarrow> c \<noteq> 176"
  by (auto simp: isSpace_def isDigit_def)

lemma greedy_chr_heads:
  "greedy ic (Chr x) (cs, s)
   = (if heads (\<lambda>c. canonicalize ic c = canonicalize ic x) s then Match (cs, tl s) else Fail)"
  by (cases s) auto

lemma heads_eq_space: "list_all isSpace w \<Longrightarrow> \<not> isSpace a \<Longrightarrow> heads (\<lambda>c. c = a) w = False"
  by (cases w) auto

lemma heads_eq_digit: "list_all isDigit w \<Longrightarrow> \<not> isDigit a \<Longrightarrow> heads (\<lambda>c. c = a) w = False"
  by (cases w) auto

lemmas chr_simps = greedy_chr_heads canon_symbol heads_eq_space heads_eq_digit space_facts

lemma hemi_class:
  assumes "upperUnit h \<in> {78, 83, 69, 87}"
  shows "\<not> classMember True (OneOf [78, 83]) h \<Longrightarrow> classMember True (OneOf [69, 87]) h"
  using assms by (auto simp: canonicalize_def upperUnit_def)

lemma greedy_dms:
  assumes d: "digitRun d"
    and w: "list_all isSpace w1" "list_all isSpace w2" "list_all isSpace w3"
    and m: "list_all isDigit m"
    and s: "case s of None \<Rightarrow> True
            | Some (ip, fr) \<Rightarrow> digitRun ip \<and> (case fr of None \<Rightarrow> True | Some fp \<Rightarrow> digitRun fp)
                \<and> (ap \<or> (m \<noteq> [] \<and> w2 \<noteq> []))"
    and h: "upperUnit h \<in> {78, 83, 69, 87}"
  shows "\<exists>caps. greedy True (body dmsPattern)
           ([], d @ [176] @ w1 @ m @ (if ap then [39] else []) @ w2
                @ (case s of None \<Rightarrow> [] | Some (ip, fr) \<Rightarrow> decimalText False ip fr)
                @ (if qu then [34] else []) @ w3 @ [h] @ post)
         = Match (caps, post)
         \<and> capture caps 1 = Some d
         \<and> capture caps 2 = (if m = [] then None else Some m)
         \<and> capture caps 3 = (case s of None \<Rightarrow> None | Some (ip, fr) \<Rightarrow> Some (decimalText False ip fr))
         \<and> capture caps 5 = Some [h]"
proof -
  note hf = hemi_facts(1-6)[OF h] hemi_class[OF h]
  have mm: "m \<noteq> [] \<Longrightarrow> digitRun m"
    using m by (simp add: digitRun_def)
  show ?thesis
  proof (cases s)
    case None
    show ?thesis
      using d w m mm hf None
      apply (cases "m = []"; cases ap; cases qu)
      apply (simp_all add: dmsPattern_def seqs_def stage_simps chr_simps
          del: greedy.simps(2,8) classMember.simps(3))
      done
  next
    case (Some p)
    obtain ip fr where p: "p = (ip, fr)"
      by (cases p)
    have ip: "digitRun ip" and sep: "ap \<or> (m \<noteq> [] \<and> w2 \<noteq> [])"
      using s Some p by auto
    show ?thesis
    proof (cases fr)
      case None
      show ?thesis
        using d w m mm hf Some p None ip sep
        apply (cases "m = []"; cases ap; cases qu; cases w2)
        apply (simp_all add: dmsPattern_def seqs_def stage_simps chr_simps decimalText_def
            del: greedy.simps(2,8) classMember.simps(3))
        done
    next
      case (Some fp)
      then have fp: "digitRun fp"
        using s \<open>s = Some p\<close> p by auto
      show ?thesis
        using d w m mm hf \<open>s = Some p\<close> p Some ip fp sep
        apply (cases "m = []"; cases ap; cases qu; cases w2)
        apply (simp_all add: dmsPattern_def seqs_def stage_simps chr_simps decimalText_def
            del: greedy.simps(2,8) classMember.simps(3))
        done
    qed
  qed
qed

lemma matchAt_dms_nondigit:
  assumes "\<not> isDigit c"
  shows "matchAt dmsPattern (c # s) = None"
proof -
  have "greedy (ignoreCase dmsPattern) (body dmsPattern) ([], c # s) = Fail"
    using assms by (simp add: dmsPattern_def seqs_def classMember_eta)
  then show ?thesis
    by (rule matchAt_fail)
qed

lemma search_dms_skip:
  "list_all (\<lambda>c. \<not> isDigit c) pre \<Longrightarrow> search dmsPattern (pre @ s) = search dmsPattern s"
  by (induction pre) (simp_all add: matchAt_dms_nondigit)

lemma search_hit: "matchAt re s = Some m \<Longrightarrow> search re s = Some m"
  by (cases s) simp_all

lemma digitsValue_Nil [simp]: "digitsValue [] = 0"
  by (simp add: digitsValue_def)

lemma parseInt_digitRun: "digitRun x \<Longrightarrow> parseInt x = toNumber (real (digitsValue x))"
  by (cases x) (auto simp: digitRun_def parseInt_def splitSign_digit run_simps)

text \<open>
  Once the groups of a match are those of a token, the value \<open>parseDMS\<close> returns is the
  formula applied to the token, in the arithmetic of doubles.
\<close>

lemma parseDMS_of_captures:
  assumes j: "jsMatch x dmsPattern = Some m"
    and shape: "dmsTokenShape t"
    and g1: "capture m 1 = Some (degreeDigits t)"
    and g2: "capture m 2 = (if minuteDigits t = [] then None else Some (minuteDigits t))"
    and g3: "capture m 3 = (case secondsText t of None \<Rightarrow> None
                            | Some (ip, fr) \<Rightarrow> Some (decimalText False ip fr))"
    and g5: "capture m 5 = Some [hemisphere t]"
  shows "parseDMS x = Some (dmsNumber t)"
proof -
  let ?s = "secondsText t"
  have ok: "digitRun (degreeDigits t)" "list_all isDigit (minuteDigits t)"
    using shape by (simp_all add: dmsTokenShape_def)
  have sec: "case ?s of None \<Rightarrow> True
      | Some (ip, fr) \<Rightarrow> digitRun ip \<and> (case fr of None \<Rightarrow> True | Some fp \<Rightarrow> digitRun fp)"
    using shape by (simp add: dmsTokenShape_def)
  have deg: "parseInt (degreeDigits t) = toNumber (real (digitsValue (degreeDigits t)))"
    using ok(1) by (rule parseInt_digitRun)
  have mins: "(if minuteDigits t = [] then Num 0 else parseInt (minuteDigits t))
              = toNumber (real (digitsValue (minuteDigits t)))"
    using ok(2) parseInt_digitRun[of "minuteDigits t"]
    by (auto simp: digitRun_def)
  have secs: "(case ?s of None \<Rightarrow> Num 0
               | Some (ip, fr) \<Rightarrow> parseFloat (decimalText False ip fr))
              = (case ?s of None \<Rightarrow> Num 0 | Some (ip, fr) \<Rightarrow> toNumber (decimalValue False ip fr))"
  proof (cases ?s)
    case None
    then show ?thesis by simp
  next
    case (Some p)
    obtain ip fr where p: "p = (ip, fr)" by (cases p)
    have "decimalOk ip fr"
      using sec Some p by (auto simp: decimalOk_def digitRun_def split: option.splits)
    then show ?thesis
      using Some p by (simp add: parseFloat_decimalText)
  qed
  have nonempty: "case ?s of None \<Rightarrow> True | Some (ip, fr) \<Rightarrow> decimalText False ip fr \<noteq> []"
    using sec by (auto simp: decimalText_def digitRun_def split: option.splits)
  show ?thesis
    using j g1 g2 g3 g5 deg mins secs nonempty
    by (auto simp: parseDMS_def Let_def dmsNumber_def toUpperCase_def split: option.splits)
qed

lemma parseDMS_token:
  assumes "dmsTokenOk t" and "list_all (\<lambda>c. \<not> isDigit c) pre"
  shows "parseDMS (pre @ dmsText t @ post) = Some (dmsNumber t)"
proof -
  let ?s = "secondsText t"
  have shape: "dmsTokenShape t"
    using assms(1) by (simp add: dmsTokenOk_def)
  have ok: "digitRun (degreeDigits t)" "list_all isSpace (space1 t)" "list_all isSpace (space2 t)"
    "list_all isSpace (space3 t)" "list_all isDigit (minuteDigits t)"
    "upperUnit (hemisphere t) \<in> {78, 83, 69, 87}"
    using assms(1) by (simp_all add: dmsTokenOk_def dmsTokenShape_def)
  have sec: "case ?s of None \<Rightarrow> True
      | Some (ip, fr) \<Rightarrow> digitRun ip \<and> (case fr of None \<Rightarrow> True | Some fp \<Rightarrow> digitRun fp)
          \<and> (apostrophe t \<or> (minuteDigits t \<noteq> [] \<and> space2 t \<noteq> []))"
    using assms(1) by (auto simp: dmsTokenOk_def dmsTokenShape_def separated_def split: option.splits)
  from greedy_dms[OF ok(1-5) sec ok(6), of "doubleQuote t" post]
  obtain caps where
    g: "greedy True (body dmsPattern) ([], dmsText t @ post) = Match (caps, post)"
    and g1: "capture caps 1 = Some (degreeDigits t)"
    and g2: "capture caps 2 = (if minuteDigits t = [] then None else Some (minuteDigits t))"
    and g3: "capture caps 3 = (case ?s of None \<Rightarrow> None | Some (ip, fr) \<Rightarrow> Some (decimalText False ip fr))"
    and g5: "capture caps 5 = Some [hemisphere t]"
    by (auto simp: dmsText_def)
  let ?m = "(0, take (length (dmsText t @ post) - length post) (dmsText t @ post)) # caps"
  have ic: "ignoreCase dmsPattern = True" and ae: "anchorEnd dmsPattern = False"
    by (simp_all add: dmsPattern_def)
  have "matchAt dmsPattern (dmsText t @ post) = Some ?m"
    by (rule matchAt_greedy) (simp_all add: ic ae g)
  then have "search dmsPattern (dmsText t @ post) = Some ?m"
    by (rule search_hit)
  then have j: "jsMatch (pre @ dmsText t @ post) dmsPattern = Some ?m"
    using search_dms_skip[OF assms(2), of "dmsText t @ post"]
    by (simp add: jsMatch_def dmsPattern_def)
  have grp: "capture ?m 1 = capture caps 1" "capture ?m 2 = capture caps 2" "capture ?m 3 = capture caps 3"
    "capture ?m 5 = capture caps 5"
    by (simp_all add: capture_def)
  show ?thesis
    using j shape
    by (rule parseDMS_of_captures) (simp_all only: grp g1 g2 g3 g5)
qed

subsection \<open>Digits that run on into a fraction\<close>

















subsection \<open>The DMS formula in doubles\<close>

text \<open>
  The arithmetic of the formula in doubles stays within \<open>10\<^sup>-\<^sup>9\<close> of the real value when
  the parts are moderate: five roundings, each of at most half a spacing.
\<close>

lemma dms_arithmetic:
  assumes "0 \<le> d" and "d \<le> 1000" and "0 \<le> m" and "m \<le> 1000"
    and "\<bar>s\<bar> \<le> 1024" and "\<bar>s - v\<bar> \<le> 1 / 2 ^ 44"
  shows "\<exists>r. numAdd (numAdd (Num d) (numDiv (Num m) (Num 60))) (numDiv (Num s) (Num 3600)) = Num r
             \<and> \<bar>r - (d + m / 60 + v / 3600)\<bar> \<le> 1 / 10 ^ 9"
proof -
  have "\<bar>m / 60\<bar> < pow2 (4 + 1)"
    using assms(3,4) by (simp add: pow2_def)
  from toNumber_near[OF this] obtain A where
    A: "toNumber (m / 60) = Num A" "\<bar>A - m / 60\<bar> \<le> pow2 (4 - 53)" "\<bar>A\<bar> \<le> pow2 (4 + 1)"
    by auto
  have A': "\<bar>A - m / 60\<bar> \<le> 1 / 2 ^ 49" "\<bar>A\<bar> \<le> 32"
    using A(2,3) by (simp_all add: pow2_def)
  have "\<bar>d + A\<bar> < pow2 (10 + 1)"
    using assms(1,2) A'(2) by (simp add: pow2_def abs_le_iff abs_less_iff)
  from toNumber_near[OF this] obtain B where
    B: "toNumber (d + A) = Num B" "\<bar>B - (d + A)\<bar> \<le> pow2 (10 - 53)" "\<bar>B\<bar> \<le> pow2 (10 + 1)"
    by auto
  have B': "\<bar>B - (d + A)\<bar> \<le> 1 / 2 ^ 43" "\<bar>B\<bar> \<le> 2048"
    using B(2,3) by (simp_all add: pow2_def)
  have "\<bar>s / 3600\<bar> < pow2 (- 1 + 1)"
    using assms(5) by (simp add: pow2_def abs_le_iff abs_less_iff)
  from toNumber_near[OF this] obtain C where
    C: "toNumber (s / 3600) = Num C" "\<bar>C - s / 3600\<bar> \<le> pow2 (- 1 - 53)" "\<bar>C\<bar> \<le> pow2 (- 1 + 1)"
    by auto
  have C': "\<bar>C - s / 3600\<bar> \<le> 1 / 2 ^ 54" "\<bar>C\<bar> \<le> 1"
    using C(2,3) by (simp_all add: pow2_def)
  have "\<bar>B + C\<bar> < pow2 (11 + 1)"
    using B'(2) C'(2) by (simp add: pow2_def abs_le_iff abs_less_iff)
  from toNumber_near[OF this] obtain R where
    R: "toNumber (B + C) = Num R" "\<bar>R - (B + C)\<bar> \<le> pow2 (11 - 53)"
    by auto
  have R': "\<bar>R - (B + C)\<bar> \<le> 1 / 2 ^ 42"
    using R(2) by (simp add: pow2_def)
  have "numAdd (numAdd (Num d) (numDiv (Num m) (Num 60))) (numDiv (Num s) (Num 3600)) = Num R"
    by (simp add: A(1) B(1) C(1) R(1))
  moreover have "\<bar>R - (d + m / 60 + v / 3600)\<bar> \<le> 1 / 10 ^ 9"
  proof -
    have "R - (d + m / 60 + v / 3600)
          = (R - (B + C)) + (B - (d + A)) + (A - m / 60) + (C - s / 3600) + (s - v) / 3600"
      by (simp add: diff_divide_distrib)
    moreover have "\<bar>(s - v) / 3600\<bar> \<le> 1 / 2 ^ 44"
      using assms(6) by simp
    ultimately have "\<bar>R - (d + m / 60 + v / 3600)\<bar>
          \<le> 1 / 2 ^ 42 + 1 / 2 ^ 43 + 1 / 2 ^ 49 + 1 / 2 ^ 54 + 1 / 2 ^ 44"
      using A'(1) B'(1) C'(1) R' by linarith
    also have "\<dots> \<le> 1 / 10 ^ 9" by simp
    finally show ?thesis .
  qed
  ultimately show ?thesis by blast
qed

lemma toNumber_small_nat: "n \<le> 1000 \<Longrightarrow> toNumber (real n) = Num (real n)"
  using toNumber_int[of "int n"] by simp

lemma decimalValue_nonneg: "0 \<le> decimalValue False ip fr"
  by (simp add: decimalValue_def split: option.splits)

lemma dmsNumber_accurate:
  assumes "moderate t"
  shows "\<exists>r. dmsNumber t = Num r \<and> \<bar>r - dmsValue t\<bar> \<le> 1 / 10 ^ 9"
proof -
  let ?d = "real (digitsValue (degreeDigits t))" and ?m = "real (digitsValue (minuteDigits t))"
  let ?v = "case secondsText t of None \<Rightarrow> 0 | Some (ip, fr) \<Rightarrow> decimalValue False ip fr"
  have d: "0 \<le> ?d" "?d \<le> 1000" "toNumber ?d = Num ?d"
    and m: "0 \<le> ?m" "?m \<le> 1000" "toNumber ?m = Num ?m"
    using assms by (simp_all add: moderate_def toNumber_small_nat)
  obtain s where s: "(case secondsText t of None \<Rightarrow> Num 0
                      | Some (ip, fr) \<Rightarrow> toNumber (decimalValue False ip fr)) = Num s"
    "\<bar>s\<bar> \<le> 1024" "\<bar>s - ?v\<bar> \<le> 1 / 2 ^ 44"
  proof (cases "secondsText t")
    case None
    then show ?thesis using that[of 0] by simp
  next
    case (Some p)
    obtain ip fr where p: "p = (ip, fr)" by (cases p)
    have "decimalValue False ip fr \<le> 1000"
      using assms Some p by (simp add: moderate_def)
    then have "\<bar>decimalValue False ip fr\<bar> < pow2 (9 + 1)"
      using decimalValue_nonneg[of ip fr] by (simp add: pow2_def)
    from toNumber_near[OF this] obtain s where
      "toNumber (decimalValue False ip fr) = Num s"
      "\<bar>s - decimalValue False ip fr\<bar> \<le> pow2 (9 - 53)" "\<bar>s\<bar> \<le> pow2 (9 + 1)"
      by auto
    then show ?thesis
      using that[of s] Some p by (simp add: pow2_def)
  qed
  from dms_arithmetic[OF d(1,2) m(1,2) s(2,3)] obtain r where
    r: "numAdd (numAdd (Num ?d) (numDiv (Num ?m) (Num 60))) (numDiv (Num s) (Num 3600)) = Num r"
    "\<bar>r - (?d + ?m / 60 + ?v / 3600)\<bar> \<le> 1 / 10 ^ 9"
    by blast
  show ?thesis
  proof (cases "upperUnit (hemisphere t) = 83 \<or> upperUnit (hemisphere t) = 87")
    case True
    then have "dmsNumber t = Num (- r)"
      using r(1) by (simp add: dmsNumber_def Let_def d(3) m(3) s(1))
    moreover have "dmsValue t = - (?d + ?m / 60 + ?v / 3600)"
      using True by (simp add: dmsValue_def)
    then have "\<bar>- r - dmsValue t\<bar> = \<bar>r - (?d + ?m / 60 + ?v / 3600)\<bar>"
      by (simp only: abs_minus_commute minus_diff_minus abs_minus)
    then have "\<bar>- r - dmsValue t\<bar> \<le> 1 / 10 ^ 9"
      using r(2) by (simp only:)
    ultimately show ?thesis by blast
  next
    case False
    then have "dmsNumber t = Num r"
      using r(1) by (simp add: dmsNumber_def Let_def d(3) m(3) s(1))
    moreover have "\<bar>r - dmsValue t\<bar> \<le> 1 / 10 ^ 9"
      using r(2) False by (simp add: dmsValue_def)
    ultimately show ?thesis by blast
  qed
qed




subsection \<open>The patterns as written, and their groups\<close>

text \<open>
  The three patterns of the embedding print as the literals of the source, code unit
  by code unit.
\<close>

lemma decimalPattern_source:
  "toString decimalPattern
   = [47, 94, 40, 45, 63, 92, 100, 43, 92, 46, 63, 92, 100, 42, 41, 44, 92, 115, 42,
      40, 45, 63, 92, 100, 43, 92, 46, 63, 92, 100, 42, 41, 36, 47]"
  by (simp add: toString_def decimalPattern_def decimalNumber_def seqs_def)

lemma dmsPairPattern_source:
  "toString dmsPairPattern
   = [47, 94, 40, 45, 63, 92, 100, 43, 176, 92, 115, 42, 92, 100, 43, 39, 63, 92, 115, 42,
      92, 100, 43, 40, 92, 46, 92, 100, 43, 41, 63, 34, 63, 92, 115, 42, 91, 78, 83, 93, 41,
      92, 115, 42, 44, 63, 92, 115, 42,
      40, 45, 63, 92, 100, 43, 176, 92, 115, 42, 92, 100, 43, 39, 63, 92, 115, 42,
      92, 100, 43, 40, 92, 46, 92, 100, 43, 41, 63, 34, 63, 92, 115, 42, 91, 69, 87, 93, 41,
      36, 47]"
  by (simp add: toString_def dmsPairPattern_def seqs_def)

lemma dmsPattern_source:
  "toString dmsPattern
   = [47, 40, 92, 100, 43, 41, 176, 92, 115, 42, 40, 92, 100, 43, 41, 63, 39, 63, 92, 115, 42,
      40, 92, 100, 43, 40, 92, 46, 92, 100, 43, 41, 63, 41, 63, 34, 63, 92, 115, 42,
      40, 91, 78, 83, 93, 124, 91, 69, 87, 93, 41, 47, 105]"
  by (simp add: toString_def dmsPattern_def seqs_def)

lemma source_dmsPairPattern: "stringIncludes (toString dmsPairPattern) (js ''NS'') = True"
  by (simp add: dmsPairPattern_source js_def)

lemma caps_extend:
  "(cs', s') \<in> set (rmatch ic r (cs, s)) \<Longrightarrow> \<exists>new. cs' = new @ cs"
proof (induction r arbitrary: cs s cs' s')
  case (Seq a b)
  from Seq.prems obtain cs1 s1 where
    a: "(cs1, s1) \<in> set (rmatch ic a (cs, s))" and b: "(cs', s') \<in> set (rmatch ic b (cs1, s1))"
    by auto
  from Seq.IH(1)[OF a] Seq.IH(2)[OF b] show ?case by auto
next
  case (Alt a b)
  from Alt.prems have "(cs', s') \<in> set (rmatch ic a (cs, s)) \<or> (cs', s') \<in> set (rmatch ic b (cs, s))"
    by simp
  then show ?case
    using Alt.IH(1)[of cs' s' cs s] Alt.IH(2)[of cs' s' cs s] by auto
next
  case (Opt a)
  from Opt.prems have "(cs', s') \<in> set (rmatch ic a (cs, s)) \<or> cs' = cs"
    by auto
  then show ?case
    using Opt.IH[of cs' s' cs s] by auto
next
  case (Grp n a)
  from Grp.prems obtain cs1 where "(cs1, s') \<in> set (rmatch ic a (cs, s))"
    and "cs' = (n, take (length s - length s') s) # cs1"
    by auto
  then show ?case
    using Grp.IH[of cs1 s' cs s] by auto
qed (auto split: list.splits if_splits)

lemma mandatory_set:
  "(cs', s') \<in> set (rmatch ic r (cs, s)) \<Longrightarrow> n \<in> mandatory r \<Longrightarrow> map_of cs' n \<noteq> None"
proof (induction r arbitrary: cs s cs' s')
  case (Seq a b)
  from Seq.prems(1) obtain cs1 s1 where
    a: "(cs1, s1) \<in> set (rmatch ic a (cs, s))" and b: "(cs', s') \<in> set (rmatch ic b (cs1, s1))"
    by auto
  show ?case
  proof (cases "n \<in> mandatory b")
    case True
    with Seq.IH(2)[OF b] show ?thesis by simp
  next
    case False
    with Seq.prems(2) have "n \<in> mandatory a" by simp
    with Seq.IH(1)[OF a] have "map_of cs1 n \<noteq> None" by simp
    moreover obtain new where "cs' = new @ cs1"
      using caps_extend[OF b] by auto
    ultimately show ?thesis
      by (auto simp: map_add_Some_iff)
  qed
next
  case (Alt a b)
  from Alt.prems(1) have "(cs', s') \<in> set (rmatch ic a (cs, s)) \<or> (cs', s') \<in> set (rmatch ic b (cs, s))"
    by simp
  then show ?case
    using Alt.IH(1)[of cs' s' cs s] Alt.IH(2)[of cs' s' cs s] Alt.prems(2) by auto
next
  case (Grp n' a)
  from Grp.prems(1) obtain cs1 where c: "(cs1, s') \<in> set (rmatch ic a (cs, s))"
    and "cs' = (n', take (length s - length s') s) # cs1"
    by auto
  then show ?case
    using Grp.IH[OF c] Grp.prems(2) by auto
qed simp_all

lemma matchAt_mandatory:
  assumes "matchAt re s = Some m" and "n \<in> mandatory (body re)"
  shows "capture m n \<noteq> None"
proof -
  from assms(1) obtain cs r rest where
    f: "filter (\<lambda>(cs, r). if anchorEnd re then r = [] else True)
          (rmatch (ignoreCase re) (body re) ([], s)) = (cs, r) # rest"
    and m: "m = (0, take (length s - length r) s) # cs"
    by (auto simp: matchAt_def split: list.splits)
  have "(cs, r) \<in> set (filter (\<lambda>(cs, r). if anchorEnd re then r = [] else True)
          (rmatch (ignoreCase re) (body re) ([], s)))"
    unfolding f by simp
  then have "(cs, r) \<in> set (rmatch (ignoreCase re) (body re) ([], s))"
    by simp
  from mandatory_set[OF this assms(2)] m show ?thesis
    by (auto simp: capture_def)
qed

lemma search_mandatory:
  "search re s = Some m \<Longrightarrow> n \<in> mandatory (body re) \<Longrightarrow> capture m n \<noteq> None"
proof (induction s)
  case Nil
  then show ?case using matchAt_mandatory[of re "[]" m n] by simp
next
  case (Cons c s)
  then show ?case
    using matchAt_mandatory[of re "c # s" m n] by (cases "matchAt re (c # s)") simp_all
qed

lemma jsMatch_mandatory:
  "jsMatch s re = Some m \<Longrightarrow> n \<in> mandatory (body re) \<Longrightarrow> capture m n \<noteq> None"
  using matchAt_mandatory[of re s m n] search_mandatory[of re s m n]
  by (cases "anchorStart re") (simp_all add: jsMatch_def)

text \<open>
  The groups the parsers read without a test take part in every match: the branches of
  the embedding for an absent group 1 or 5 of \<open>parseDMS\<close>, and an absent group of
  \<open>parseCoordinates\<close>, are never taken.
\<close>

lemma dms_groups_present:
  "jsMatch s dmsPattern = Some m \<Longrightarrow> capture m 1 \<noteq> None \<and> capture m 5 \<noteq> None"
  using jsMatch_mandatory[of s dmsPattern m 1] jsMatch_mandatory[of s dmsPattern m 5]
  by (simp add: dmsPattern_def seqs_def)

lemma pair_groups_present:
  "jsMatch s decimalPattern = Some m \<Longrightarrow> capture m 1 \<noteq> None \<and> capture m 2 \<noteq> None"
  "jsMatch s dmsPairPattern = Some m \<Longrightarrow> capture m 1 \<noteq> None \<and> capture m 3 \<noteq> None"
  using jsMatch_mandatory[of s decimalPattern m 1] jsMatch_mandatory[of s decimalPattern m 2]
    jsMatch_mandatory[of s dmsPairPattern m 1] jsMatch_mandatory[of s dmsPairPattern m 3]
  by (simp_all add: decimalPattern_def dmsPairPattern_def seqs_def)

subsection \<open>Inputs \<open>parseDMS\<close> accepts\<close>

text \<open>
  Every result of the matcher, on any path, is a word of the pattern together with the
  captures of that word; from them the input is read back as a token.
\<close>

lemma rmatch_clang:
  "(cs', s') \<in> set (rmatch ic r (cs, s)) \<Longrightarrow>
   \<exists>u new. s = u @ s' \<and> cs' = new @ cs \<and> (u, new) \<in> clang ic r"
proof (induction r arbitrary: cs s cs' s')
  case Eps
  then show ?case by simp
next
  case (Chr x)
  then show ?case by (auto split: list.splits if_splits)
next
  case (Cls k)
  then show ?case by (auto split: list.splits if_splits)
next
  case (Seq a b)
  from Seq.prems obtain cs1 s1 where
    a: "(cs1, s1) \<in> set (rmatch ic a (cs, s))" and b: "(cs', s') \<in> set (rmatch ic b (cs1, s1))"
    by auto
  from Seq.IH(1)[OF a] obtain u na where u: "s = u @ s1" "cs1 = na @ cs" "(u, na) \<in> clang ic a"
    by auto
  from Seq.IH(2)[OF b] obtain v nb where v: "s1 = v @ s'" "cs' = nb @ cs1" "(v, nb) \<in> clang ic b"
    by auto
  from u v have "s = (u @ v) @ s'" "cs' = (nb @ na) @ cs" "(u @ v, nb @ na) \<in> clang ic (Seq a b)"
    by auto
  then show ?case by blast
next
  case (Alt a b)
  from Alt.prems have "(cs', s') \<in> set (rmatch ic a (cs, s)) \<or> (cs', s') \<in> set (rmatch ic b (cs, s))"
    by simp
  then show ?case
    using Alt.IH(1)[of cs' s' cs s] Alt.IH(2)[of cs' s' cs s] by auto
next
  case (Opt a)
  from Opt.prems have "(cs', s') \<in> set (rmatch ic a (cs, s)) \<or> (cs' = cs \<and> s' = s)"
    by auto
  then show ?case
    using Opt.IH[of cs' s' cs s] by auto
next
  case (Star k)
  then show ?case using star_sound[of s' "classMember ic k" s] by auto
next
  case (Plus k)
  show ?case
  proof (cases s)
    case Nil
    with Plus show ?thesis by simp
  next
    case (Cons c t)
    with Plus have c: "classMember ic k c" and "s' \<in> set (star (classMember ic k) t)" and "cs' = cs"
      by (auto split: if_splits)
    then obtain u where "t = u @ s'" "list_all (classMember ic k) u"
      using star_sound by blast
    with c Cons \<open>cs' = cs\<close>
    have "s = (c # u) @ s'" "cs' = [] @ cs" "(c # u, []) \<in> clang ic (Plus k)"
      by simp_all
    then show ?thesis by blast
  qed
next
  case (Grp n a)
  from Grp.prems obtain cs1 where c: "(cs1, s') \<in> set (rmatch ic a (cs, s))"
    and cs': "cs' = (n, take (length s - length s') s) # cs1"
    by auto
  from Grp.IH[OF c] obtain u na where u: "s = u @ s'" "cs1 = na @ cs" "(u, na) \<in> clang ic a"
    by auto
  then have "take (length s - length s') s = u"
    by simp
  with u cs' have "s = u @ s'" "cs' = ((n, u) # na) @ cs" "(u, (n, u) # na) \<in> clang ic (Grp n a)"
    by simp_all
  then show ?case by blast
qed

lemma matchAt_clang:
  assumes "matchAt re s = Some m"
  shows "\<exists>u new post. s = u @ post \<and> m = (0, u) # new \<and> (u, new) \<in> clang (ignoreCase re) (body re)"
proof -
  from assms obtain cs r rest where
    f: "filter (\<lambda>(cs, r). if anchorEnd re then r = [] else True)
          (rmatch (ignoreCase re) (body re) ([], s)) = (cs, r) # rest"
    and m: "m = (0, take (length s - length r) s) # cs"
    by (auto simp: matchAt_def split: list.splits)
  have "(cs, r) \<in> set (filter (\<lambda>(cs, r). if anchorEnd re then r = [] else True)
          (rmatch (ignoreCase re) (body re) ([], s)))"
    unfolding f by simp
  then have "(cs, r) \<in> set (rmatch (ignoreCase re) (body re) ([], s))"
    by simp
  from rmatch_clang[OF this] obtain u new where
    "s = u @ r" "cs = new" "(u, new) \<in> clang (ignoreCase re) (body re)"
    by auto
  with m show ?thesis by auto
qed

lemma search_clang:
  "search re s = Some m \<Longrightarrow>
   \<exists>pre u new post. s = pre @ u @ post \<and> m = (0, u) # new
      \<and> (u, new) \<in> clang (ignoreCase re) (body re)"
proof (induction s)
  case Nil
  then show ?case using matchAt_clang[of re "[]" m] by auto
next
  case (Cons c s)
  show ?case
  proof (cases "matchAt re (c # s)")
    case None
    with Cons.prems have "search re s = Some m" by simp
    from Cons.IH[OF this] obtain pre u new post where
      "s = pre @ u @ post" "m = (0, u) # new" "(u, new) \<in> clang (ignoreCase re) (body re)"
      by blast
    then have "c # s = (c # pre) @ u @ post \<and> m = (0, u) # new
        \<and> (u, new) \<in> clang (ignoreCase re) (body re)"
      by simp
    then show ?thesis by blast
  next
    case (Some m')
    with Cons.prems have "matchAt re (c # s) = Some m" by simp
    from matchAt_clang[OF this] obtain u new post where
      "c # s = [] @ u @ post \<and> m = (0, u) # new \<and> (u, new) \<in> clang (ignoreCase re) (body re)"
      by auto
    then show ?thesis by blast
  qed
qed

lemma clang_seqs_Cons:
  assumes "(u, new) \<in> clang ic (seqs (r # rs))"
  obtains ua ub na nb where "u = ua @ ub" "new = nb @ na" "(ua, na) \<in> clang ic r"
    "(ub, nb) \<in> clang ic (seqs rs)"
  using assms by (auto simp: seqs_def)

lemma clang_seqs_Nil: "(u, new) \<in> clang ic (seqs []) \<Longrightarrow> u = [] \<and> new = []"
  by (simp add: seqs_def)

lemma clang_digits:
  "(u, new) \<in> clang ic (Grp n (Plus Digit)) \<Longrightarrow> digitRun u \<and> new = [(n, u)]"
  by (auto simp: digitRun_def classMember_eta)

lemma clang_spaces: "(u, new) \<in> clang ic (Star Space) \<Longrightarrow> list_all isSpace u \<and> new = []"
  by (auto simp: classMember_eta)

lemma clang_opt_digits:
  "(u, new) \<in> clang ic (Opt (Grp n (Plus Digit))) \<Longrightarrow>
   list_all isDigit u \<and> new = (if u = [] then [] else [(n, u)])"
  by (auto simp: classMember_eta)

lemma clang_opt_symbol:
  assumes "(u, new) \<in> clang ic (Opt (Chr x))" and "x = 34 \<or> x = 39"
  shows "u = (if u \<noteq> [] then [x] else []) \<and> new = []"
  using assms by (auto simp: canon_symbol)

lemma clang_GrpE:
  "(u, new) \<in> clang ic (Grp n a) \<Longrightarrow> \<exists>na. new = (n, u) # na \<and> (u, na) \<in> clang ic a"
  by auto

lemma clang_SeqE:
  "(u, new) \<in> clang ic (Seq a b) \<Longrightarrow>
   \<exists>ua ub na nb. u = ua @ ub \<and> new = nb @ na \<and> (ua, na) \<in> clang ic a \<and> (ub, nb) \<in> clang ic b"
  by auto

lemma clang_fraction:
  assumes "(u, new) \<in> clang ic (Opt (Grp 4 (Seq (Chr 46) (Plus Digit))))"
  shows "(u = [] \<and> new = []) \<or> (\<exists>fp. digitRun fp \<and> u = 46 # fp \<and> new = [(4, u)])"
  using assms by (auto simp: canon_symbol classMember_eta digitRun_def)

lemma clang_seconds:
  assumes "(u, new) \<in> clang ic (Opt (Grp 3 (Seq (Plus Digit) (Opt (Grp 4 (Seq (Chr 46) (Plus Digit)))))))"
  shows "\<exists>so. (case so of None \<Rightarrow> True
                | Some (ip, fr) \<Rightarrow> digitRun ip \<and> (case fr of None \<Rightarrow> True | Some fp \<Rightarrow> digitRun fp))
           \<and> u = (case so of None \<Rightarrow> [] | Some (ip, fr) \<Rightarrow> decimalText False ip fr)
           \<and> map_of new 3 = (case so of None \<Rightarrow> None | Some (ip, fr) \<Rightarrow> Some (decimalText False ip fr))
           \<and> map_of new 1 = None \<and> map_of new 2 = None \<and> map_of new 5 = None"
proof (cases "u = [] \<and> new = []")
  case True
  then show ?thesis
    by (intro exI[of _ None]) simp
next
  case False
  with assms have "(u, new) \<in> clang ic (Grp 3 (Seq (Plus Digit) (Opt (Grp 4 (Seq (Chr 46) (Plus Digit))))))"
    by (simp del: clang.simps(4,9))
  from clang_GrpE[OF this] obtain na where new: "new = (3, u) # na"
    and sq: "(u, na) \<in> clang ic (Seq (Plus Digit) (Opt (Grp 4 (Seq (Chr 46) (Plus Digit)))))"
    by blast
  from clang_SeqE[OF sq] obtain ip uf n1 nf where u: "u = ip @ uf" and na: "na = nf @ n1"
    and i: "(ip, n1) \<in> clang ic (Plus Digit)"
    and f: "(uf, nf) \<in> clang ic (Opt (Grp 4 (Seq (Chr 46) (Plus Digit))))"
    by blast
  from i have ip: "digitRun ip" "n1 = []"
    by (auto simp: digitRun_def classMember_eta)
  from clang_fraction[OF f] show ?thesis
  proof
    assume "uf = [] \<and> nf = []"
    with ip u new na show ?thesis
      by (intro exI[of _ "Some (ip, None)"]) (simp add: decimalText_def)
  next
    assume "\<exists>fp. digitRun fp \<and> uf = 46 # fp \<and> nf = [(4, uf)]"
    then obtain fp where "digitRun fp" "uf = 46 # fp" "nf = [(4, uf)]"
      by blast
    with ip u new na show ?thesis
      by (intro exI[of _ "Some (ip, Some fp)"]) (simp add: decimalText_def)
  qed
qed

lemma upperUnit_consts:
  "upperUnit 78 = 78" "upperUnit 83 = 83" "upperUnit 69 = 69" "upperUnit 87 = 87"
  by (simp_all add: upperUnit_def)

lemma clang_hemisphere:
  assumes "(u, new) \<in> clang True (Grp 5 (Alt (Cls (OneOf [78, 83])) (Cls (OneOf [69, 87]))))"
  shows "\<exists>h. u = [h] \<and> new = [(5, [h])] \<and> upperUnit h \<in> {78, 83, 69, 87}"
  using assms by (auto simp: canonicalize_def upperUnit_consts)

lemma dms_clang:
  assumes "(u, new) \<in> clang True (body dmsPattern)"
  shows "\<exists>t. dmsTokenShape t \<and> u = dmsText t
           \<and> map_of new 1 = Some (degreeDigits t)
           \<and> map_of new 2 = (if minuteDigits t = [] then None else Some (minuteDigits t))
           \<and> map_of new 3 = (case secondsText t of None \<Rightarrow> None
                               | Some (ip, fr) \<Rightarrow> Some (decimalText False ip fr))
           \<and> map_of new 5 = Some [hemisphere t]"
proof -
  from assms have a: "(u, new) \<in> clang True (seqs
        [Grp 1 (Plus Digit), Chr 176, Star Space,
         Opt (Grp 2 (Plus Digit)), Opt (Chr 39), Star Space,
         Opt (Grp 3 (Seq (Plus Digit) (Opt (Grp 4 (Seq (Chr 46) (Plus Digit)))))),
         Opt (Chr 34), Star Space,
         Grp 5 (Alt (Cls (OneOf [78, 83])) (Cls (OneOf [69, 87])))])"
    by (simp add: dmsPattern_def)
  from a obtain u1 r1 n1 m1 where s1: "u = u1 @ r1" "new = m1 @ n1"
    "(u1, n1) \<in> clang True (Grp 1 (Plus Digit))" and a1: "(r1, m1) \<in> clang True (seqs
        [Chr 176, Star Space,
         Opt (Grp 2 (Plus Digit)), Opt (Chr 39), Star Space,
         Opt (Grp 3 (Seq (Plus Digit) (Opt (Grp 4 (Seq (Chr 46) (Plus Digit)))))),
         Opt (Chr 34), Star Space,
         Grp 5 (Alt (Cls (OneOf [78, 83])) (Cls (OneOf [69, 87])))])"
    by (rule clang_seqs_Cons)
  from a1 obtain u2 r2 n2 m2 where s2: "r1 = u2 @ r2" "m1 = m2 @ n2"
    "(u2, n2) \<in> clang True (Chr 176)" and a2: "(r2, m2) \<in> clang True (seqs
        [Star Space,
         Opt (Grp 2 (Plus Digit)), Opt (Chr 39), Star Space,
         Opt (Grp 3 (Seq (Plus Digit) (Opt (Grp 4 (Seq (Chr 46) (Plus Digit)))))),
         Opt (Chr 34), Star Space,
         Grp 5 (Alt (Cls (OneOf [78, 83])) (Cls (OneOf [69, 87])))])"
    by (rule clang_seqs_Cons)
  from a2 obtain u3 r3 n3 m3 where s3: "r2 = u3 @ r3" "m2 = m3 @ n3"
    "(u3, n3) \<in> clang True (Star Space)" and a3: "(r3, m3) \<in> clang True (seqs
        [Opt (Grp 2 (Plus Digit)), Opt (Chr 39), Star Space,
         Opt (Grp 3 (Seq (Plus Digit) (Opt (Grp 4 (Seq (Chr 46) (Plus Digit)))))),
         Opt (Chr 34), Star Space,
         Grp 5 (Alt (Cls (OneOf [78, 83])) (Cls (OneOf [69, 87])))])"
    by (rule clang_seqs_Cons)
  from a3 obtain u4 r4 n4 m4 where s4: "r3 = u4 @ r4" "m3 = m4 @ n4"
    "(u4, n4) \<in> clang True (Opt (Grp 2 (Plus Digit)))" and a4: "(r4, m4) \<in> clang True (seqs
        [Opt (Chr 39), Star Space,
         Opt (Grp 3 (Seq (Plus Digit) (Opt (Grp 4 (Seq (Chr 46) (Plus Digit)))))),
         Opt (Chr 34), Star Space,
         Grp 5 (Alt (Cls (OneOf [78, 83])) (Cls (OneOf [69, 87])))])"
    by (rule clang_seqs_Cons)
  from a4 obtain u5 r5 n5 m5 where s5: "r4 = u5 @ r5" "m4 = m5 @ n5"
    "(u5, n5) \<in> clang True (Opt (Chr 39))" and a5: "(r5, m5) \<in> clang True (seqs
        [Star Space,
         Opt (Grp 3 (Seq (Plus Digit) (Opt (Grp 4 (Seq (Chr 46) (Plus Digit)))))),
         Opt (Chr 34), Star Space,
         Grp 5 (Alt (Cls (OneOf [78, 83])) (Cls (OneOf [69, 87])))])"
    by (rule clang_seqs_Cons)
  from a5 obtain u6 r6 n6 m6 where s6: "r5 = u6 @ r6" "m5 = m6 @ n6"
    "(u6, n6) \<in> clang True (Star Space)" and a6: "(r6, m6) \<in> clang True (seqs
        [Opt (Grp 3 (Seq (Plus Digit) (Opt (Grp 4 (Seq (Chr 46) (Plus Digit)))))),
         Opt (Chr 34), Star Space,
         Grp 5 (Alt (Cls (OneOf [78, 83])) (Cls (OneOf [69, 87])))])"
    by (rule clang_seqs_Cons)
  from a6 obtain u7 r7 n7 m7 where s7: "r6 = u7 @ r7" "m6 = m7 @ n7"
    "(u7, n7) \<in> clang True
       (Opt (Grp 3 (Seq (Plus Digit) (Opt (Grp 4 (Seq (Chr 46) (Plus Digit)))))))"
    and a7: "(r7, m7) \<in> clang True (seqs
        [Opt (Chr 34), Star Space,
         Grp 5 (Alt (Cls (OneOf [78, 83])) (Cls (OneOf [69, 87])))])"
    by (rule clang_seqs_Cons)
  from a7 obtain u8 r8 n8 m8 where s8: "r7 = u8 @ r8" "m7 = m8 @ n8"
    "(u8, n8) \<in> clang True (Opt (Chr 34))" and a8: "(r8, m8) \<in> clang True (seqs
        [Star Space, Grp 5 (Alt (Cls (OneOf [78, 83])) (Cls (OneOf [69, 87])))])"
    by (rule clang_seqs_Cons)
  from a8 obtain u9 r9 n9 m9 where s9: "r8 = u9 @ r9" "m8 = m9 @ n9"
    "(u9, n9) \<in> clang True (Star Space)" and a9: "(r9, m9) \<in> clang True (seqs
        [Grp 5 (Alt (Cls (OneOf [78, 83])) (Cls (OneOf [69, 87])))])"
    by (rule clang_seqs_Cons)
  from a9 obtain u10 r10 n10 m10 where s10: "r9 = u10 @ r10" "m9 = m10 @ n10"
    "(u10, n10) \<in> clang True (Grp 5 (Alt (Cls (OneOf [78, 83])) (Cls (OneOf [69, 87]))))"
    and a10: "(r10, m10) \<in> clang True (seqs [])"
    by (rule clang_seqs_Cons)
  from clang_seqs_Nil[OF a10] have e: "r10 = []" "m10 = []" by simp_all
  from clang_digits[OF s1(3)] have p1: "digitRun u1" "n1 = [(1, u1)]" by simp_all
  from s2(3) have p2: "u2 = [176]" "n2 = []" by (auto simp: canon_symbol)
  from clang_spaces[OF s3(3)] have p3: "list_all isSpace u3" "n3 = []" by simp_all
  from clang_opt_digits[OF s4(3)] have p4: "list_all isDigit u4" "n4 = (if u4 = [] then [] else [(2, u4)])"
    by simp_all
  from clang_opt_symbol[OF s5(3)] have p5: "u5 = (if u5 \<noteq> [] then [39] else [])" "n5 = []"
    by simp_all
  from clang_spaces[OF s6(3)] have p6: "list_all isSpace u6" "n6 = []" by simp_all
  from clang_seconds[OF s7(3)] obtain so where p7:
    "case so of None \<Rightarrow> True
     | Some (ip, fr) \<Rightarrow> digitRun ip \<and> (case fr of None \<Rightarrow> True | Some fp \<Rightarrow> digitRun fp)"
    "u7 = (case so of None \<Rightarrow> [] | Some (ip, fr) \<Rightarrow> decimalText False ip fr)"
    "map_of n7 3 = (case so of None \<Rightarrow> None | Some (ip, fr) \<Rightarrow> Some (decimalText False ip fr))"
    "map_of n7 1 = None" "map_of n7 2 = None" "map_of n7 5 = None"
    by blast
  from clang_opt_symbol[OF s8(3)] have p8: "u8 = (if u8 \<noteq> [] then [34] else [])" "n8 = []"
    by simp_all
  from clang_spaces[OF s9(3)] have p9: "list_all isSpace u9" "n9 = []" by simp_all
  from clang_hemisphere[OF s10(3)] obtain h where p10:
    "u10 = [h]" "n10 = [(5, [h])]" "upperUnit h \<in> {78, 83, 69, 87}"
    by blast
  let ?t = "\<lparr>degreeDigits = u1, space1 = u3, minuteDigits = u4, apostrophe = (u5 \<noteq> []),
             space2 = u6, secondsText = so, doubleQuote = (u8 \<noteq> []), space3 = u9,
             hemisphere = h\<rparr>"
  have shape: "dmsTokenShape ?t"
    using p1(1) p3(1) p4(1) p6(1) p7(1) p9(1) p10(3) by (simp add: dmsTokenShape_def)
  have tx: "u = dmsText ?t"
    using s1(1) s2(1) s3(1) s4(1) s5(1) s6(1) s7(1) s8(1) s9(1) s10(1) e(1)
      p2(1) p5(1) p7(2) p8(1) p10(1)
    by (simp add: dmsText_def)
  have nw: "new = (5, [h]) # n7 @ n4 @ [(1, u1)]"
    using s1(2) s2(2) s3(2) s4(2) s5(2) s6(2) s7(2) s8(2) s9(2) s10(2) e(2)
      p1(2) p2(2) p3(2) p5(2) p6(2) p8(2) p9(2) p10(2)
    by simp
  have caps: "map_of new 1 = Some u1" "map_of new 2 = (if u4 = [] then None else Some u4)"
    "map_of new 3 = (case so of None \<Rightarrow> None | Some (ip, fr) \<Rightarrow> Some (decimalText False ip fr))"
    "map_of new 5 = Some [h]"
    using p4(2) p7(3-6) by (simp_all add: nw map_add_def split: option.splits)
  show ?thesis
    using shape tx caps by (intro exI[of _ ?t]) simp
qed

text \<open>
  Whatever input \<open>parseDMS\<close> accepts holds a token of the pattern's shape, in the
  reading the matcher made of it, and the value returned is the formula applied to
  that reading.
\<close>

lemma parseDMS_reading:
  assumes "parseDMS x = Some v"
  shows "\<exists>pre t post. x = pre @ dmsText t @ post \<and> dmsTokenShape t \<and> v = dmsNumber t"
proof -
  from assms obtain m where j: "jsMatch x dmsPattern = Some m"
    by (auto simp: parseDMS_def split: option.splits)
  then have "search dmsPattern x = Some m"
    by (simp add: jsMatch_def dmsPattern_def)
  from search_clang[OF this] obtain pre u new post where
    x: "x = pre @ u @ post" and m: "m = (0, u) # new"
    and c: "(u, new) \<in> clang True (body dmsPattern)"
    by (auto simp: dmsPattern_def)
  from dms_clang[OF c] obtain t where t: "dmsTokenShape t" "u = dmsText t"
    "map_of new 1 = Some (degreeDigits t)"
    "map_of new 2 = (if minuteDigits t = [] then None else Some (minuteDigits t))"
    "map_of new 3 = (case secondsText t of None \<Rightarrow> None
                     | Some (ip, fr) \<Rightarrow> Some (decimalText False ip fr))"
    "map_of new 5 = Some [hemisphere t]"
    by blast
  have caps: "capture m 1 = map_of new 1" "capture m 2 = map_of new 2"
    "capture m 3 = map_of new 3" "capture m 5 = map_of new 5"
    by (simp_all add: capture_def m)
  have "parseDMS x = Some (dmsNumber t)"
    using j t(1)
    by (rule parseDMS_of_captures) (simp_all only: caps t(3-6))
  with assms x t(1,2) show ?thesis
    by auto
qed

subsection \<open>DMS pairs\<close>

text \<open>
  The second pattern of \<open>parseCoordinates\<close> takes two tokens, each with an optional
  minus sign and with all three digit runs written, and hands each captured token to
  \<open>parseDMS\<close>.
\<close>

lemma dmsPairPattern_tokens:
  "body dmsPairPattern
   = seqs [Grp 1 (pairToken 2 [78, 83]), Star Space, Opt (Chr 44), Star Space,
           Grp 3 (pairToken 4 [69, 87])]"
  by (simp add: dmsPairPattern_def pairToken_def)

lemma greedy_Grp_prefix:
  "greedy ic a (cs, x @ rest) = Match (cs', rest) \<Longrightarrow>
   greedy ic (Grp n a) (cs, x @ rest) = Match ((n, x) # cs', rest)"
  by simp

lemma greedy_pairToken_body:
  assumes ok: "pairTokenOk ks t"
  shows "greedy False (pairToken g ks) (cs, signedToken neg t @ rest)
         = Match (fractionCapture g t @ cs, rest)"
proof -
  obtain ip fr where s: "secondsText t = Some (ip, fr)"
    using ok by (cases "secondsText t") (auto simp: pairTokenOk_def)
  have sh: "digitRun (degreeDigits t)" "list_all isSpace (space1 t)" "list_all isSpace (space2 t)"
    "list_all isSpace (space3 t)" "digitRun (minuteDigits t)" "digitRun ip"
    "apostrophe t \<or> space2 t \<noteq> []" "classMember False (OneOf ks) (hemisphere t)"
    using ok s
    by (auto simp: pairTokenOk_def dmsTokenOk_def dmsTokenShape_def separated_def digitRun_def
        canonicalize_def)
  have hf: "\<not> isDigit (hemisphere t)" "\<not> isSpace (hemisphere t)" "hemisphere t \<noteq> 39"
    "hemisphere t \<noteq> 34" "hemisphere t \<noteq> 46" "hemisphere t \<noteq> 176"
    using ok hemi_facts(1-6)[of "hemisphere t"]
    by (simp_all add: pairTokenOk_def dmsTokenOk_def dmsTokenShape_def)
  show ?thesis
  proof (cases fr)
    case None
    show ?thesis
      using sh hf s None
      apply (cases neg; cases "apostrophe t"; cases "doubleQuote t"; cases "space2 t")
      apply (simp_all add: pairToken_def seqs_def signedToken_def dmsText_def fractionCapture_def
          decimalText_def stage_simps chr_simps
          del: greedy.simps(2,8) classMember.simps(3))
      done
  next
    case (Some fp)
    then have fp: "digitRun fp"
      using ok s by (auto simp: pairTokenOk_def dmsTokenOk_def dmsTokenShape_def)
    show ?thesis
      using sh hf s Some fp
      apply (cases neg; cases "apostrophe t"; cases "doubleQuote t"; cases "space2 t")
      apply (simp_all add: pairToken_def seqs_def signedToken_def dmsText_def fractionCapture_def
          decimalText_def stage_simps chr_simps
          del: greedy.simps(2,8) classMember.simps(3))
      done
  qed
qed

lemma greedy_pairToken:
  assumes "pairTokenOk ks t"
  shows "greedy False (Grp n (pairToken g ks)) (cs, signedToken neg t @ rest)
         = Match ((n, signedToken neg t) # fractionCapture g t @ cs, rest)"
  using greedy_pairToken_body[OF assms] by (rule greedy_Grp_prefix)


lemma greedy_Seq:
  "greedy ic a st = Match st1 \<Longrightarrow> greedy ic b st1 = Match st2 \<Longrightarrow>
   greedy ic (Seq a b) st = Match st2"
  by simp

lemma signedToken_head:
  assumes "dmsTokenOk t"
  shows "\<exists>c r. signedToken neg t = c # r \<and> \<not> isSpace c \<and> c \<noteq> 44"
proof -
  obtain d ds where "degreeDigits t = d # ds" "isDigit d"
    using assms
    by (cases "degreeDigits t") (auto simp: dmsTokenOk_def dmsTokenShape_def digitRun_def)
  then show ?thesis
    by (cases neg) (auto simp: signedToken_def dmsText_def digit_facts const_facts)
qed

lemma greedy_separator:
  assumes "list_all isSpace sp1" and "list_all isSpace sp2"
    and "\<not> isSpace c" and "c \<noteq> 44"
    and "greedy False x (cs, c # r) = Match st'"
  shows "greedy False (Seq (Star Space) (Seq (Opt (Chr 44)) (Seq (Star Space) x)))
           (cs, sp1 @ (if comma then [44] else []) @ sp2 @ c # r)
         = Match st'"
  using assms
  by (cases comma) (simp_all add: run_simps chr_simps const_facts del: greedy.simps(2))

lemma greedy_dmsPair:
  assumes t1: "pairTokenOk [78, 83] t1" and t2: "pairTokenOk [69, 87] t2"
    and sp: "list_all isSpace sp1" "list_all isSpace sp2"
  shows "greedy False (body dmsPairPattern) ([], dmsPairText n1 t1 sp1 comma sp2 n2 t2)
         = Match ((3, signedToken n2 t2) # fractionCapture 4 t2
                  @ (1, signedToken n1 t1) # fractionCapture 2 t1, [])"
proof -
  let ?c1 = "(1, signedToken n1 t1) # fractionCapture 2 t1"
  let ?c3 = "(3, signedToken n2 t2) # fractionCapture 4 t2 @ ?c1"
  obtain c r where h: "signedToken n2 t2 = c # r" "\<not> isSpace c" "c \<noteq> 44"
    using signedToken_head[of t2 n2] t2 by (auto simp: pairTokenOk_def)
  have g3: "greedy False (Grp 3 (pairToken 4 [69, 87])) (?c1, c # r) = Match (?c3, [])"
    using greedy_pairToken[OF t2, of 3 4 ?c1 n2 "[]"] h(1) by simp
  then have "greedy False (Seq (Grp 3 (pairToken 4 [69, 87])) Eps) (?c1, c # r) = Match (?c3, [])"
    by (simp del: greedy.simps(9))
  from greedy_separator[OF sp h(2,3) this, of comma]
  have rest: "greedy False
      (Seq (Star Space) (Seq (Opt (Chr 44)) (Seq (Star Space)
         (Seq (Grp 3 (pairToken 4 [69, 87])) Eps))))
      (?c1, sp1 @ (if comma then [44] else []) @ sp2 @ signedToken n2 t2) = Match (?c3, [])"
    using h(1) by simp
  have g1: "greedy False (Grp 1 (pairToken 2 [78, 83]))
      ([], signedToken n1 t1 @ sp1 @ (if comma then [44] else []) @ sp2 @ signedToken n2 t2)
      = Match (?c1, sp1 @ (if comma then [44] else []) @ sp2 @ signedToken n2 t2)"
    using greedy_pairToken[OF t1, of 1 2 "[]" n1] by simp
  from greedy_Seq[OF g1 rest] show ?thesis
    by (simp add: dmsPairPattern_tokens seqs_def dmsPairText_def del: greedy.simps)
qed


lemma parseDMS_signedToken:
  assumes "dmsTokenOk t"
  shows "parseDMS (signedToken neg t) = Some (dmsNumber t)"
  using parseDMS_token[OF assms, of "if neg then [45] else []" "[]"]
  by (simp add: signedToken_def const_facts)

lemma fractionCapture_keys: "k \<noteq> g \<Longrightarrow> map_of (fractionCapture g t) k = None"
  by (auto simp: fractionCapture_def split: option.splits)

text \<open>
  A pair of such tokens, the first ending in N or S and the second in E or W, is parsed
  to the two values of the DMS formula. A minus sign before a token is matched and then
  ignored by \<open>parseDMS\<close>, whose pattern starts at the first digit.
\<close>

lemma parseCoordinates_dmsPair:
  assumes t1: "pairTokenOk [78, 83] t1" and t2: "pairTokenOk [69, 87] t2"
    and sp: "list_all isSpace sp1" "list_all isSpace sp2"
  shows "parseCoordinates (dmsPairText n1 t1 sp1 comma sp2 n2 t2)
         = Some \<lparr>lat = Some (dmsNumber t1), lng = Some (dmsNumber t2)\<rparr>"
proof -
  let ?inp = "dmsPairText n1 t1 sp1 comma sp2 n2 t2"
  let ?caps = "(3, signedToken n2 t2) # fractionCapture 4 t2
               @ (1, signedToken n1 t1) # fractionCapture 2 t1"
  have "176 \<in> set ?inp"
    by (simp add: dmsPairText_def signedToken_def dmsText_def)
  then have dec: "jsMatch ?inp decimalPattern = None"
    using decimal_match_no_degree[of ?inp] by (cases "jsMatch ?inp decimalPattern") auto
  have "matchAt dmsPairPattern ?inp
        = Some ((0, take (length ?inp - length ([]::jsstring)) ?inp) # ?caps)"
    using greedy_dmsPair[OF t1 t2 sp, of n1 comma n2]
    by (intro matchAt_greedy) (simp_all add: dmsPairPattern_def)
  then have pair: "jsMatch ?inp dmsPairPattern = Some ((0, ?inp) # ?caps)"
    by (simp add: jsMatch_def dmsPairPattern_def)
  have c1: "capture ((0, ?inp) # ?caps) 1 = Some (signedToken n1 t1)"
    and c3: "capture ((0, ?inp) # ?caps) 3 = Some (signedToken n2 t2)"
    by (simp_all add: capture_def fractionCapture_keys map_add_def)
  have ok: "dmsTokenOk t1" "dmsTokenOk t2"
    using t1 t2 by (simp_all add: pairTokenOk_def)
  show ?thesis
    using dec pair c1 c3
    by (simp add: parseCoordinates_def patterns_def source_dmsPairPattern
        parseDMS_signedToken[OF ok(1)] parseDMS_signedToken[OF ok(2)])
qed

text \<open>
  A token that \<open>parseDMS\<close> reads on its own, degrees and hemisphere only, is not
  recognized inside a pair: the pair pattern asks for all three digit runs.
\<close>

lemma pair_without_minutes_not_recognized:
  "parseCoordinates (js ''30'' @ [176] @ js ''N,120'' @ [176] @ js ''E'') = None"
  by (simp add: parseCoordinates_def patterns_def jsMatch_def matchAt_def decimalPattern_def
      dmsPairPattern_def decimalNumber_def seqs_def js_def isDigit_def isSpace_def canonicalize_def)

subsection \<open>Ranges\<close>

lemma inRange_iff:
  "inRange \<lparr>lat = Some a, lng = Some b\<rparr>
   \<longleftrightarrow> (\<exists>y. a = Num y \<and> - 90 \<le> y \<and> y \<le> 90) \<and> (\<exists>x. b = Num x \<and> - 180 \<le> x \<and> x \<le> 180)"
  by (cases a; cases b) (auto simp: inRange_def)

text \<open>
  C10 (as the claim states it, refuted). \<open>91,181\<close> is accepted and returned as
  written, outside both ranges.
\<close>

theorem out_of_range_accepted_counterexample:
  "parseCoordinates (js ''91,181'') = Some \<lparr>lat = Some (Num 91), lng = Some (Num 181)\<rparr>
   \<and> \<not> inRange \<lparr>lat = Some (Num 91), lng = Some (Num 181)\<rparr>"
  using parseCoordinates_decimal[of "js ''91''" None "js ''181''" None "[]" False False]
  by (simp add: decimalOk_def digitRun_def decimalText_def decimalValue_def digitsValue_def js_def
      isDigit_def inRange_def toNumber_numeral)

text \<open>
  C10 (amended). The parser checks no range. Every decimal pair is accepted whatever
  its size and returned as the doubles nearest to the numerals written; the coordinate
  returned lies within the ranges of the data model exactly when the latitude written
  is at most \<open>90 + 2\<^sup>-\<^sup>4\<^sup>7\<close> in magnitude and the longitude written at most
  \<open>180 + 2\<^sup>-\<^sup>4\<^sup>6\<close> (a numeral beyond a bound by no more than that rounds onto the
  bound). Every DMS pair whose two tokens have minutes and seconds written, with an
  apostrophe or white space between them, is accepted likewise and returned as the
  values of the DMS formula computed in doubles; when degrees, minutes and seconds are
  at most 1000 each, the coordinate is within the ranges when the real values of the
  formula are inside them by \<open>10\<^sup>-\<^sup>9\<close>, and outside when one of them is outside by
  \<open>10\<^sup>-\<^sup>9\<close>.
\<close>

theorem range_as_written:
  "(decimalOk i1 f1 \<and> decimalOk i2 f2 \<and> list_all isSpace w
      \<longrightarrow> (\<exists>c. parseCoordinates (decimalText n1 i1 f1 @ [44] @ w @ decimalText n2 i2 f2) = Some c
             \<and> lat c = Some (toNumber (decimalValue n1 i1 f1))
             \<and> lng c = Some (toNumber (decimalValue n2 i2 f2))
             \<and> inRange c
                 = (\<bar>decimalValue n1 i1 f1\<bar> \<le> 90 + 1 / 2 ^ 47
                    \<and> \<bar>decimalValue n2 i2 f2\<bar> \<le> 180 + 1 / 2 ^ 46)))
   \<and> (pairTokenOk [78, 83] t1 \<and> pairTokenOk [69, 87] t2
       \<and> list_all isSpace sp1 \<and> list_all isSpace sp2
      \<longrightarrow> (\<exists>c. parseCoordinates (dmsPairText m1 t1 sp1 comma sp2 m2 t2) = Some c
             \<and> lat c = Some (dmsNumber t1) \<and> lng c = Some (dmsNumber t2)
             \<and> (moderate t1 \<and> moderate t2
                 \<longrightarrow> (\<bar>dmsValue t1\<bar> \<le> 90 - 1 / 10 ^ 9 \<and> \<bar>dmsValue t2\<bar> \<le> 180 - 1 / 10 ^ 9
                        \<longrightarrow> inRange c)
                   \<and> (90 + 1 / 10 ^ 9 < \<bar>dmsValue t1\<bar> \<or> 180 + 1 / 10 ^ 9 < \<bar>dmsValue t2\<bar>
                        \<longrightarrow> \<not> inRange c))))"
proof (intro conjI impI)
  assume "decimalOk i1 f1 \<and> decimalOk i2 f2 \<and> list_all isSpace w"
  then have ok: "decimalOk i1 f1" "decimalOk i2 f2" "list_all isSpace w"
    by simp_all
  let ?c = "\<lparr>lat = Some (toNumber (decimalValue n1 i1 f1)),
            lng = Some (toNumber (decimalValue n2 i2 f2))\<rparr>"
  have "parseCoordinates (decimalText n1 i1 f1 @ [44] @ w @ decimalText n2 i2 f2) = Some ?c"
    using ok by (rule parseCoordinates_decimal)
  moreover have "inRange ?c
      = (\<bar>decimalValue n1 i1 f1\<bar> \<le> 90 + 1 / 2 ^ 47 \<and> \<bar>decimalValue n2 i2 f2\<bar> \<le> 180 + 1 / 2 ^ 46)"
    unfolding inRange_iff toNumber_within_90 toNumber_within_180 ..
  ultimately show "\<exists>c. parseCoordinates (decimalText n1 i1 f1 @ [44] @ w @ decimalText n2 i2 f2) = Some c
             \<and> lat c = Some (toNumber (decimalValue n1 i1 f1))
             \<and> lng c = Some (toNumber (decimalValue n2 i2 f2))
             \<and> inRange c
                 = (\<bar>decimalValue n1 i1 f1\<bar> \<le> 90 + 1 / 2 ^ 47
                    \<and> \<bar>decimalValue n2 i2 f2\<bar> \<le> 180 + 1 / 2 ^ 46)"
    by (intro exI[of _ ?c]) simp
next
  assume "pairTokenOk [78, 83] t1 \<and> pairTokenOk [69, 87] t2
       \<and> list_all isSpace sp1 \<and> list_all isSpace sp2"
  then have ok: "pairTokenOk [78, 83] t1" "pairTokenOk [69, 87] t2"
    "list_all isSpace sp1" "list_all isSpace sp2"
    by simp_all
  let ?c = "\<lparr>lat = Some (dmsNumber t1), lng = Some (dmsNumber t2)\<rparr>"
  have p: "parseCoordinates (dmsPairText m1 t1 sp1 comma sp2 m2 t2) = Some ?c"
    using ok by (rule parseCoordinates_dmsPair)
  have r: "(\<bar>dmsValue t1\<bar> \<le> 90 - 1 / 10 ^ 9 \<and> \<bar>dmsValue t2\<bar> \<le> 180 - 1 / 10 ^ 9
              \<longrightarrow> inRange ?c)
           \<and> (90 + 1 / 10 ^ 9 < \<bar>dmsValue t1\<bar> \<or> 180 + 1 / 10 ^ 9 < \<bar>dmsValue t2\<bar>
              \<longrightarrow> \<not> inRange ?c)"
    if md: "moderate t1 \<and> moderate t2"
  proof -
    from md dmsNumber_accurate[of t1] obtain y where
      y: "dmsNumber t1 = Num y" "\<bar>y - dmsValue t1\<bar> \<le> 1 / 10 ^ 9" by blast
    from md dmsNumber_accurate[of t2] obtain x where
      x: "dmsNumber t2 = Num x" "\<bar>x - dmsValue t2\<bar> \<le> 1 / 10 ^ 9" by blast
    have c: "inRange ?c \<longleftrightarrow> - 90 \<le> y \<and> y \<le> 90 \<and> - 180 \<le> x \<and> x \<le> 180"
      by (simp add: inRange_def y(1) x(1))
    have "\<bar>dmsValue t1\<bar> \<le> 90 - 1 / 10 ^ 9 \<and> \<bar>dmsValue t2\<bar> \<le> 180 - 1 / 10 ^ 9
          \<longrightarrow> - 90 \<le> y \<and> y \<le> 90 \<and> - 180 \<le> x \<and> x \<le> 180"
      using y(2) x(2) by linarith
    moreover have "90 + 1 / 10 ^ 9 < \<bar>dmsValue t1\<bar> \<or> 180 + 1 / 10 ^ 9 < \<bar>dmsValue t2\<bar>
          \<longrightarrow> \<not> (- 90 \<le> y \<and> y \<le> 90 \<and> - 180 \<le> x \<and> x \<le> 180)"
      using y(2) x(2) by linarith
    ultimately show ?thesis
      unfolding c by blast
  qed
  show "\<exists>c. parseCoordinates (dmsPairText m1 t1 sp1 comma sp2 m2 t2) = Some c
             \<and> lat c = Some (dmsNumber t1) \<and> lng c = Some (dmsNumber t2)
             \<and> (moderate t1 \<and> moderate t2
                 \<longrightarrow> (\<bar>dmsValue t1\<bar> \<le> 90 - 1 / 10 ^ 9 \<and> \<bar>dmsValue t2\<bar> \<le> 180 - 1 / 10 ^ 9
                        \<longrightarrow> inRange c)
                   \<and> (90 + 1 / 10 ^ 9 < \<bar>dmsValue t1\<bar> \<or> 180 + 1 / 10 ^ 9 < \<bar>dmsValue t2\<bar>
                        \<longrightarrow> \<not> inRange c))"
    using p r by (intro exI[of _ ?c]) simp
qed

theorem range_as_written_witness:
  "(\<exists>c. parseCoordinates (js ''-30.5, 120.25'') = Some c \<and> inRange c)
   \<and> (\<exists>c. parseCoordinates (js ''90.00000000000000001,0'') = Some c \<and> inRange c)
   \<and> (\<exists>c. parseCoordinates
             (js ''30'' @ [176] @ js ''21'' @ [39] @ js ''20'' @ [34] @ js ''N, 181''
              @ [176] @ js ''1 2.5E'') = Some c
          \<and> \<not> inRange c)"
proof -
  let ?t1 = "\<lparr>degreeDigits = js ''30'', space1 = [], minuteDigits = js ''21'', apostrophe = True,
              space2 = [], secondsText = Some (js ''20'', None), doubleQuote = True, space3 = [],
              hemisphere = 78\<rparr>"
  let ?t2 = "\<lparr>degreeDigits = js ''181'', space1 = [], minuteDigits = js ''1'', apostrophe = False,
              space2 = [32], secondsText = Some (js ''2'', Some (js ''5'')), doubleQuote = False,
              space3 = [], hemisphere = 69\<rparr>"
  have ok: "pairTokenOk [78, 83] ?t1" "pairTokenOk [69, 87] ?t2"
    by (simp_all add: pairTokenOk_def dmsTokenOk_def dmsTokenShape_def separated_def digitRun_def
        js_def isDigit_def isSpace_def upperUnit_def)
  have md: "moderate ?t1" "moderate ?t2"
    by (simp_all add: moderate_def decimalValue_def digitsValue_def js_def)
  have out: "180 + 1 / 10 ^ 9 < \<bar>dmsValue ?t2\<bar>"
    by (simp add: dmsValue_def decimalValue_def digitsValue_def js_def upperUnit_def)
  have d: "decimalOk (js ''30'') (Some (js ''5''))" "decimalOk (js ''120'') (Some (js ''25''))"
    "decimalOk (js ''90'') (Some (js ''00000000000000001''))" "decimalOk (js ''0'') None"
    "list_all isSpace [32]" "list_all isSpace []"
    by (simp_all add: decimalOk_def digitRun_def js_def isDigit_def isSpace_def)
  have a: "\<exists>c. parseCoordinates (js ''-30.5, 120.25'') = Some c \<and> inRange c"
    using range_as_written[of "js ''30''" "Some (js ''5'')" "js ''120''" "Some (js ''25'')" "[32]"
        True False, THEN conjunct1] d
    by (auto simp: decimalText_def decimalValue_def digitsValue_def js_def)
  have b: "\<exists>c. parseCoordinates (js ''90.00000000000000001,0'') = Some c \<and> inRange c"
    using range_as_written[of "js ''90''" "Some (js ''00000000000000001'')" "js ''0''" None "[]"
        False False, THEN conjunct1] d
    by (auto simp: decimalText_def decimalValue_def digitsValue_def js_def)
  have c: "\<exists>c. parseCoordinates
             (js ''30'' @ [176] @ js ''21'' @ [39] @ js ''20'' @ [34] @ js ''N, 181''
              @ [176] @ js ''1 2.5E'') = Some c
          \<and> \<not> inRange c"
    using range_as_written[of _ _ _ _ _ _ _ ?t1 ?t2 "[]" "[32]" False True False, THEN conjunct2]
      ok d(5,6) md out
    by (auto simp: dmsPairText_def signedToken_def dmsText_def decimalText_def js_def)
  from a b c show ?thesis
    by (simp only: simp_thms)
qed

end
